theory Spec2Isabelle
  imports Complex_Main "HOL-Library.Word" "HOL-Library.AList"
begin

section \<open>Byte buffers and the incremental hasher (media/utils/hash.util.ts)\<close>

text \<open>
  A Node \<open>Buffer\<close> is a list of bytes. The digest function of the crypto library
  (\<open>createHash('sha256') ... digest('hex')\<close>) is not code of the repository; it is the
  parameter \<open>H\<close>. A \<open>Hash\<close> object is modelled by the data it has been fed so far:
  \<open>update\<close> appends, \<open>digest\<close> applies \<open>H\<close> to everything that was fed.
\<close>

type_synonym buffer = "8 word list"

type_synonym hash_obj = buffer

definition createHash :: hash_obj where
  "createHash = []"

definition hash_update :: "hash_obj \<Rightarrow> buffer \<Rightarrow> hash_obj" where
  "hash_update h b = h @ b"

definition hash_digest :: "(buffer \<Rightarrow> string) \<Rightarrow> hash_obj \<Rightarrow> string" where
  "hash_digest H h = H h"

definition hashBuffer :: "(buffer \<Rightarrow> string) \<Rightarrow> buffer \<Rightarrow> string" where
  "hashBuffer H b = hash_digest H (hash_update createHash b)"

record hash_result =
  hr_sha :: string
  hr_bytes :: nat

text \<open>The body of the \<open>for await (const chunk of stream)\<close> loop of \<open>hashFile\<close>.\<close>

fun hashFile_loop :: "hash_obj \<Rightarrow> nat \<Rightarrow> buffer list \<Rightarrow> hash_obj \<times> nat" where
  "hashFile_loop h totalBytes [] = (h, totalBytes)"
| "hashFile_loop h totalBytes (chunk # rest) =
     hashFile_loop (hash_update h chunk) (totalBytes + length chunk) rest"

definition hashFile_chunks :: "(buffer \<Rightarrow> string) \<Rightarrow> buffer list \<Rightarrow> hash_result" where
  "hashFile_chunks H cs =
     (case hashFile_loop createHash 0 cs of
        (h, totalBytes) \<Rightarrow> \<lparr>hr_sha = hash_digest H h, hr_bytes = totalBytes\<rparr>)"

text \<open>
  \<open>createReadStream\<close> delivers the contents of the file in chunks of at most
  \<open>highWaterMark\<close> bytes (64 KiB by default).
\<close>

function chunksOf :: "nat \<Rightarrow> 'a list \<Rightarrow> 'a list list" where
  "chunksOf n xs =
     (if n = 0 \<or> xs = [] then (if xs = [] then [] else [xs])
      else take n xs # chunksOf n (drop n xs))"
  by pat_completeness auto
termination
  by (relation "measure (\<lambda>(n, xs). length xs)") auto

declare chunksOf.simps [simp del]

definition highWaterMark :: nat where
  "highWaterMark = 65536"

definition createReadStream :: "buffer \<Rightarrow> buffer list" where
  "createReadStream contents = chunksOf highWaterMark contents"


section \<open>Paths (node:path on a POSIX host)\<close>

text \<open>
  The service runs on a POSIX host, so \<open>path.join\<close> is \<open>path.posix.join\<close> and
  \<open>path.sep\<close> is \<open>/\<close>. The functions below follow the algorithms of Node's
  \<open>lib/path.js\<close>; \<open>split_sep\<close> and \<open>join_sep\<close> are JavaScript's
  \<open>s.split('/')\<close> and \<open>xs.join('/')\<close>.
\<close>

fun split_sep :: "string \<Rightarrow> string list" where
  "split_sep [] = [[]]"
| "split_sep (c # cs) =
     (if c = CHR ''/'' then [] # split_sep cs
      else (case split_sep cs of [] \<Rightarrow> [[c]] | s # ss \<Rightarrow> (c # s) # ss))"

fun join_sep :: "string list \<Rightarrow> string" where
  "join_sep [] = []"
| "join_sep [s] = s"
| "join_sep (s # t # ss) = s @ CHR ''/'' # join_sep (t # ss)"

text \<open>
  One step of \<open>normalizeString\<close>: empty segments and \<open>.\<close> are dropped, \<open>..\<close> removes
  the last kept segment, or is kept when nothing can be removed and the path is relative.
\<close>

definition normalize_step :: "bool \<Rightarrow> string list \<Rightarrow> string \<Rightarrow> string list" where
  "normalize_step allowAboveRoot res seg =
     (if seg = [] \<or> seg = ''.'' then res
      else if seg = ''..'' then
        (if res \<noteq> [] \<and> last res \<noteq> ''..'' then butlast res
         else if allowAboveRoot then res @ [''..''] else res)
      else res @ [seg])"

definition normalize_segs :: "bool \<Rightarrow> string list \<Rightarrow> string list" where
  "normalize_segs allowAboveRoot segs = foldl (normalize_step allowAboveRoot) [] segs"

definition normalizeString :: "bool \<Rightarrow> string \<Rightarrow> string" where
  "normalizeString allowAboveRoot p = join_sep (normalize_segs allowAboveRoot (split_sep p))"

definition isAbsolute :: "string \<Rightarrow> bool" where
  "isAbsolute p = (case p of [] \<Rightarrow> False | c # _ \<Rightarrow> c = CHR ''/'')"

definition posix_normalize :: "string \<Rightarrow> string" where
  "posix_normalize p =
     (if p = [] then ''.''
      else
        (let trailingSeparator = (last p = CHR ''/'');
             q = normalizeString (\<not> isAbsolute p) p
         in if q = [] then (if isAbsolute p then ''/'' else if trailingSeparator then ''./'' else ''.'')
            else (if isAbsolute p then ''/'' else []) @ q @ (if trailingSeparator then ''/'' else [])))"

definition posix_join :: "string list \<Rightarrow> string" where
  "posix_join args =
     (let parts = filter (\<lambda>a. a \<noteq> []) args
      in if parts = [] then ''.'' else posix_normalize (join_sep parts))"

text \<open>
  \<open>path.resolve\<close> of one path against the working directory, as the list of the segments
  of the absolute result. Two path strings name the same file exactly when they resolve to
  the same segments, so the file system below is keyed by resolved segments.
\<close>

definition resolve_segs :: "string \<Rightarrow> string \<Rightarrow> string list" where
  "resolve_segs cwd p =
     normalize_segs False (split_sep (if isAbsolute p then p else cwd @ CHR ''/'' # p))"

definition posix_resolve :: "string \<Rightarrow> string \<Rightarrow> string" where
  "posix_resolve cwd p = CHR ''/'' # join_sep (resolve_segs cwd p)"

fun common_prefix_len :: "'a list \<Rightarrow> 'a list \<Rightarrow> nat" where
  "common_prefix_len (x # xs) (y # ys) = (if x = y then Suc (common_prefix_len xs ys) else 0)"
| "common_prefix_len _ _ = 0"

definition posix_relative :: "string \<Rightarrow> string \<Rightarrow> string \<Rightarrow> string" where
  "posix_relative cwd from to =
     (if from = to then []
      else
        (let f = resolve_segs cwd from; t = resolve_segs cwd to
         in if f = t then []
            else (let n = common_prefix_len f t
                  in join_sep (replicate (length f - n) ''..'' @ drop n t))))"

definition strip_trailing_seps :: "string \<Rightarrow> string" where
  "strip_trailing_seps p = rev (dropWhile (\<lambda>c. c = CHR ''/'') (rev p))"

definition posix_dirname :: "string \<Rightarrow> string" where
  "posix_dirname p =
     (case p of
        [] \<Rightarrow> ''.''
      | c # r \<Rightarrow>
          (let r' = strip_trailing_seps r
           in if CHR ''/'' \<notin> set r' then (if c = CHR ''/'' then ''/'' else ''.'')
              else (let d = c # rev (tl (dropWhile (\<lambda>x. x \<noteq> CHR ''/'') (rev r')))
                    in if c = CHR ''/'' \<and> length d = 1 then ''//'' else d)))"

definition last_segment :: "string \<Rightarrow> string" where
  "last_segment p = rev (takeWhile (\<lambda>c. c \<noteq> CHR ''/'') (rev (strip_trailing_seps p)))"

text \<open>
  \<open>path.extname\<close>: from the last dot of the last segment, unless there is no dot, the
  dot is the first character of the segment, or the segment is \<open>..\<close>.
\<close>

definition posix_extname :: "string \<Rightarrow> string" where
  "posix_extname p =
     (let b = last_segment p;
          e = rev (takeWhile (\<lambda>c. c \<noteq> CHR ''.'') (rev b))
      in if CHR ''.'' \<notin> set b \<or> length e + 1 = length b \<or> b = ''..'' then []
         else CHR ''.'' # e)"

text \<open>
  \<open>path.basename(p, ext)\<close>: the last segment, without \<open>ext\<close> when it ends with it and
  is longer. (Node differs in one corner that the callers never reach: an \<open>ext\<close> that
  contains a separator.)
\<close>

definition posix_basename :: "string \<Rightarrow> string \<Rightarrow> string" where
  "posix_basename p ext =
     (let b = last_segment p
      in if ext \<noteq> [] \<and> length ext \<le> length p then
           (if ext = p then []
            else if length ext < length b \<and> drop (length b - length ext) b = ext
              then take (length b - length ext) b
            else b)
         else b)"

subsection \<open>Strings and numbers of JavaScript\<close>

definition toLowerChar :: "char \<Rightarrow> char" where
  "toLowerChar c =
     (let n = (of_char c :: nat) in if 65 \<le> n \<and> n \<le> 90 then char_of (n + 32) else c)"

definition toLowerCase :: "string \<Rightarrow> string" where
  "toLowerCase s = map toLowerChar s"

definition digit_char :: "nat \<Rightarrow> char" where
  "digit_char d = ''0123456789'' ! (d mod 10)"

function show_nat :: "nat \<Rightarrow> string" where
  "show_nat n = (if n < 10 then [digit_char n] else show_nat (n div 10) @ [digit_char (n mod 10)])"
  by pat_completeness auto
termination
  by (relation "measure id") auto

declare show_nat.simps [simp del]

definition show_int :: "int \<Rightarrow> string" where
  "show_int i = (if i < 0 then CHR ''-'' # show_nat (nat (- i)) else show_nat (nat i))"

text \<open>\<open>s.padStart(2, '0')\<close>.\<close>

definition padStart2 :: "string \<Rightarrow> string" where
  "padStart2 s = replicate (2 - length s) CHR ''0'' @ s"

text \<open>
  A JavaScript \<open>number\<close> as far as the durations need it: a finite value or \<open>NaN\<close>
  (what \<open>parseFloat\<close> returns for text that is no number). Every comparison with
  \<open>NaN\<close> is false.
\<close>

datatype number = Num rat | NaN

fun num_gt :: "number \<Rightarrow> number \<Rightarrow> bool" where
  "num_gt (Num a) (Num b) = (a > b)"
| "num_gt _ _ = False"

fun num_times :: "number \<Rightarrow> rat \<Rightarrow> number" where
  "num_times (Num a) k = Num (a * k)"
| "num_times NaN k = NaN"

text \<open>\<open>Math.round\<close>: the nearest integer, halves rounded up.\<close>

fun math_round :: "number \<Rightarrow> number" where
  "math_round (Num a) = Num (of_int \<lfloor>a + 1 / 2\<rfloor>)"
| "math_round NaN = NaN"


section \<open>Errors, configuration and the external collaborators\<close>

text \<open>
  Every exception class the services throw is a constructor; \<open>ToolError\<close> stands for a
  plain \<open>Error\<close> raised by an external tool or by the runtime (a missing file, a codec
  that exits with a failure).
\<close>

datatype error =
    BadRequest string
  | PayloadTooLarge string
  | UnsupportedMediaType string
  | NotFound string
  | ToolError string

text \<open>
  A step either throws or returns a value, and leaves a world behind in both cases.
  \<open>bindE\<close> is \<open>await\<close> followed by the rest of the function: an error of the first
  step is the error of the whole, with the world as the first step left it.
\<close>

definition bindE :: "(error + 'a) \<times> 'w \<Rightarrow> ('a \<Rightarrow> 'w \<Rightarrow> (error + 'b) \<times> 'w) \<Rightarrow> (error + 'b) \<times> 'w" where
  "bindE m f = (case m of (Inl err, w) \<Rightarrow> (Inl err, w) | (Inr x, w) \<Rightarrow> f x w)"

datatype MediaKind = Image | Video

record UploadTokenPayload =
  tok_sub :: string
  tok_kind :: MediaKind
  tok_maxSize :: "int option"
  tok_postId :: "string option"
  tok_maxVideoSec :: "number option"
  tok_exp :: int

record config =
  cfg_tmpDir :: string
  cfg_originalsDir :: string
  cfg_thumbsDir :: string
  cfg_maxUploadBytes :: int
  cfg_allowedImageMime :: "string list"
  cfg_allowedVideoMime :: "string list"
  cfg_thumbImageMax :: nat
  cfg_thumbVideoWidth :: nat

record dims =
  d_width :: "nat option"
  d_height :: "nat option"

record probe_stream =
  ps_codec_type :: "string option"
  ps_width :: "nat option"
  ps_height :: "nat option"

record probe_json =
  pj_format_duration :: "string option"
  pj_streams :: "probe_stream list"

text \<open>
  The libraries and tools the services call are parameters of the model: the digest, the
  magic-byte sniffer (\<open>file-type\<close>), the image codec (\<open>sharp\<close>), \<open>ffprobe\<close> and
  \<open>ffmpeg\<close> (each a function of its arguments and of the contents of its input file,
  \<open>None\<close> when it fails), \<open>parseFloat\<close>, the UUID generator and the working directory
  of the process.
\<close>

record env =
  config :: config
  cwd :: string
  sha256hex :: "buffer \<Rightarrow> string"
  fileTypeFromBuffer :: "buffer \<Rightarrow> (string \<times> string) option"
  sharp_toBuffer :: "string \<Rightarrow> buffer \<Rightarrow> (buffer \<times> dims) option"
  sharp_thumbnail :: "nat \<Rightarrow> buffer \<Rightarrow> buffer option"
  sharp_metadata :: "buffer \<Rightarrow> dims option"
  ffprobePath :: "string option"
  ffprobe :: "buffer \<Rightarrow> probe_json option"
  ffmpegPath :: "string option"
  ffmpeg :: "string list \<Rightarrow> buffer \<Rightarrow> buffer option"
  parseFloat :: "string \<Rightarrow> number"
  randomUUID :: "nat \<Rightarrow> string"

section \<open>The world: file system, effects, log\<close>

record date =
  date_year :: int
  date_month :: nat
  date_day :: nat

datatype event =
    Mkdir string
  | WriteFile string
  | CopyFile string string
  | Unlink string
  | CreateWriteStream string
  | StreamWrite string nat
  | Ffprobe string
  | Ffmpeg "string list"

text \<open>
  The file system maps the resolved segments of a path to the contents of the file; the
  order of the list is the order in which a directory walk meets the files. \<open>events\<close>
  is the trace of file-system writes and tool invocations, \<open>logs\<close> the structured log
  (code and the textual details), \<open>uuidCount\<close> the number of UUIDs drawn so far and
  \<open>today\<close> what \<open>new Date()\<close> returns (\<open>date_month\<close> is \<open>getUTCMonth()\<close>,
  counted from 0).
\<close>

record world =
  files :: "(string list \<times> buffer) list"
  events :: "event list"
  logs :: "(string \<times> string list) list"
  uuidCount :: nat
  today :: date

definition fs_key :: "env \<Rightarrow> string \<Rightarrow> string list" where
  "fs_key e p = resolve_segs (cwd e) p"

definition fs_readFile :: "env \<Rightarrow> world \<Rightarrow> string \<Rightarrow> buffer option" where
  "fs_readFile e w p = map_of (files w) (fs_key e p)"

definition fs_exists :: "env \<Rightarrow> world \<Rightarrow> string \<Rightarrow> bool" where
  "fs_exists e w p = (fs_readFile e w p \<noteq> None)"

definition emit :: "event \<Rightarrow> world \<Rightarrow> world" where
  "emit ev w = w\<lparr>events := events w @ [ev]\<rparr>"

definition logger :: "string \<Rightarrow> string list \<Rightarrow> world \<Rightarrow> world" where
  "logger code details w = w\<lparr>logs := logs w @ [(code, details)]\<rparr>"

definition put_file :: "env \<Rightarrow> string \<Rightarrow> buffer \<Rightarrow> world \<Rightarrow> world" where
  "put_file e p d w = w\<lparr>files := AList.update (fs_key e p) d (files w)\<rparr>"

definition fs_writeFile :: "env \<Rightarrow> string \<Rightarrow> buffer \<Rightarrow> world \<Rightarrow> world" where
  "fs_writeFile e p d w = put_file e p d (emit (WriteFile p) w)"

text \<open>\<open>fs.unlink(p).catch(() => undefined)\<close>: the file is gone afterwards, a missing file is no error.\<close>

definition fs_unlink :: "env \<Rightarrow> string \<Rightarrow> world \<Rightarrow> world" where
  "fs_unlink e p w = (emit (Unlink p) w)\<lparr>files := AList.delete (fs_key e p) (files w)\<rparr>"

text \<open>\<open>fs.mkdir(p, {recursive: true})\<close>: directories hold no data, the call is only traced.\<close>

definition fs_mkdir :: "string \<Rightarrow> world \<Rightarrow> world" where
  "fs_mkdir p w = emit (Mkdir p) w"

definition fs_copyFile :: "env \<Rightarrow> string \<Rightarrow> string \<Rightarrow> world \<Rightarrow> (error + unit) \<times> world" where
  "fs_copyFile e src dst w =
     (case fs_readFile e w src of
        None \<Rightarrow> (Inl (ToolError ''ENOENT''), w)
      | Some d \<Rightarrow> (Inr (), put_file e dst d (emit (CopyFile src dst) w)))"

definition fs_stat_size :: "env \<Rightarrow> world \<Rightarrow> string \<Rightarrow> error + nat" where
  "fs_stat_size e w p =
     (case fs_readFile e w p of None \<Rightarrow> Inl (ToolError ''ENOENT'') | Some d \<Rightarrow> Inr (length d))"

definition hashFile :: "env \<Rightarrow> world \<Rightarrow> string \<Rightarrow> error + hash_result" where
  "hashFile e w filePath =
     (case fs_readFile e w filePath of
        None \<Rightarrow> Inl (ToolError ''ENOENT'')
      | Some contents \<Rightarrow> Inr (hashFile_chunks (sha256hex e) (createReadStream contents)))"

text \<open>
  \<open>fast-glob\<close> with a pattern \<open>**/name\<close>, \<open>cwd: dir\<close> and \<open>onlyFiles\<close>: the files
  below \<open>dir\<close> whose last segment matches, as paths relative to \<open>dir\<close>, in walk order.
\<close>

definition fg :: "env \<Rightarrow> world \<Rightarrow> string \<Rightarrow> (string \<Rightarrow> bool) \<Rightarrow> string list" where
  "fg e w dir matches =
     (let root = fs_key e dir
      in map (\<lambda>k. join_sep (drop (length root) k))
           (filter (\<lambda>k. length root < length k \<and> take (length root) k = root \<and> matches (last k))
              (map fst (files w))))"

section \<open>Path allocation and metadata (media/media.service.ts)\<close>

record MediaPathsResult =
  originalPath :: string
  thumbPath :: string
  originalKey :: string
  thumbKey :: string
  isNew :: bool
  relativeDir :: string

definition buildDatePath :: "date \<Rightarrow> string" where
  "buildDatePath d =
     (let year = date_year d;
          month = padStart2 (show_nat (date_month d + 1));
          day = padStart2 (show_nat (date_day d))
      in posix_join [show_int year, month, day])"

definition findExistingOriginal :: "env \<Rightarrow> world \<Rightarrow> string \<Rightarrow> string \<Rightarrow> string option" where
  "findExistingOriginal e w sha ext =
     (case fg e w (cfg_originalsDir (config e)) (\<lambda>n. n = sha @ ''.'' @ ext) of
        [] \<Rightarrow> None
      | m # _ \<Rightarrow> Some (posix_join [cfg_originalsDir (config e), m]))"

definition buildStorageKey :: "env \<Rightarrow> string \<Rightarrow> string \<Rightarrow> string \<Rightarrow> string" where
  "buildStorageKey e filePath rootDir prefix =
     (let relative = join_sep (split_sep (posix_relative (cwd e) rootDir filePath))
      in posix_join [prefix, relative])"

definition deriveThumbPathFromOriginal :: "env \<Rightarrow> string \<Rightarrow> string \<Rightarrow> string" where
  "deriveThumbPathFromOriginal e origPath thumbs =
     (let relative = posix_relative (cwd e) (cfg_originalsDir (config e)) origPath;
          dir = posix_dirname relative;
          sha = posix_basename relative (posix_extname relative)
      in posix_join [thumbs, dir, sha @ ''.jpg''])"

definition resolvePathsForSha :: "env \<Rightarrow> world \<Rightarrow> string \<Rightarrow> string \<Rightarrow> MediaPathsResult \<times> world" where
  "resolvePathsForSha e w sha ext =
     (let originals = cfg_originalsDir (config e); thumbs = cfg_thumbsDir (config e)
      in case findExistingOriginal e w sha ext of
           Some existing \<Rightarrow>
             (let oKey = buildStorageKey e existing originals ''o'';
                  tPath = deriveThumbPathFromOriginal e existing thumbs;
                  tKey = buildStorageKey e tPath thumbs ''t''
              in (\<lparr>originalPath = existing, thumbPath = tPath, originalKey = oKey, thumbKey = tKey,
                   isNew = False,
                   relativeDir =
                     join_sep (split_sep (posix_dirname (posix_relative (cwd e) originals existing)))\<rparr>,
                  logger ''media.path.reused'' [sha, oKey, tKey] w))
         | None \<Rightarrow>
             (let datePath = buildDatePath (today w);
                  originalDir = posix_join [originals, datePath];
                  thumbDir = posix_join [thumbs, datePath];
                  w1 = fs_mkdir thumbDir (fs_mkdir originalDir w);
                  filename = sha @ ''.'' @ ext;
                  oPath = posix_join [originalDir, filename];
                  tPath = posix_join [thumbDir, sha @ ''.jpg''];
                  oKey = posix_join [''o'', datePath, filename];
                  tKey = posix_join [''t'', datePath, sha @ ''.jpg'']
              in (\<lparr>originalPath = oPath, thumbPath = tPath, originalKey = oKey, thumbKey = tKey,
                   isNew = True, relativeDir = datePath\<rparr>,
                  logger ''media.path.created'' [sha, oKey, tKey] w1)))"

text \<open>\<open>s.replace('.', '')\<close> removes the first dot.\<close>

definition findOriginalBySha :: "env \<Rightarrow> world \<Rightarrow> string \<Rightarrow> (string \<times> string) option \<times> world" where
  "findOriginalBySha e w sha =
     (case fg e w (cfg_originalsDir (config e)) (\<lambda>n. take (length sha + 1) n = sha @ ''.'') of
        [] \<Rightarrow> (None, w)
      | relative # _ \<Rightarrow>
          (let absolute = posix_join [cfg_originalsDir (config e), relative];
               extension = toLowerCase (remove1 CHR ''.'' (posix_extname absolute))
           in (Some (absolute, extension), logger ''media.original.found'' [sha, extension] w)))"

definition extensionToKind :: "string \<Rightarrow> error + MediaKind" where
  "extensionToKind ext =
     (let lower = toLowerCase ext
      in if lower \<in> set [''jpg'', ''jpeg'', ''png'', ''webp''] then Inr Image
         else if lower \<in> set [''mp4'', ''mov''] then Inr Video
         else Inl (UnsupportedMediaType (''Unsupported extension '' @ ext)))"

definition extensionToMime :: "string \<Rightarrow> error + string" where
  "extensionToMime ext =
     (let lower = toLowerCase ext
      in if lower = ''jpg'' \<or> lower = ''jpeg'' then Inr ''image/jpeg''
         else if lower = ''png'' then Inr ''image/png''
         else if lower = ''webp'' then Inr ''image/webp''
         else if lower = ''mp4'' then Inr ''video/mp4''
         else if lower = ''mov'' then Inr ''video/quicktime''
         else Inl (UnsupportedMediaType (''Unsupported extension '' @ ext)))"

record probe_result =
  pr_durationSec :: "number option"
  pr_width :: "nat option"
  pr_height :: "nat option"

text \<open>
  Running \<open>ffprobe\<close> on a file and reading its JSON output; shared by
  \<open>MediaService.probeVideo\<close> and \<open>VideoService.probe\<close>, which run the same command.
  An empty duration string is falsy, so it counts as absent.
\<close>

definition run_ffprobe :: "env \<Rightarrow> world \<Rightarrow> string \<Rightarrow> (error + probe_result) \<times> world" where
  "run_ffprobe e w filePath =
     (case ffprobePath e of
        None \<Rightarrow> (Inl (ToolError ''ffprobe binary not found''), w)
      | Some bin \<Rightarrow>
          (let w1 = emit (Ffprobe filePath) w
           in case fs_readFile e w filePath of
                None \<Rightarrow> (Inl (ToolError ''ffprobe failed''), w1)
              | Some contents \<Rightarrow>
                  (case ffprobe e contents of
                     None \<Rightarrow> (Inl (ToolError ''ffprobe failed''), w1)
                   | Some parsed \<Rightarrow>
                       (let durationSec =
                              (case pj_format_duration parsed of
                                 None \<Rightarrow> None
                               | Some s \<Rightarrow> if s = [] then None else Some (parseFloat e s));
                            videoStream =
                              find (\<lambda>st. ps_codec_type st = Some ''video'') (pj_streams parsed)
                        in (Inr \<lparr>pr_durationSec = durationSec,
                                 pr_width = (case videoStream of None \<Rightarrow> None | Some st \<Rightarrow> ps_width st),
                                 pr_height = (case videoStream of None \<Rightarrow> None | Some st \<Rightarrow> ps_height st)\<rparr>,
                            w1)))))"

definition probeVideo :: "env \<Rightarrow> world \<Rightarrow> string \<Rightarrow> (error + probe_result) \<times> world" where
  "probeVideo e w filePath =
     bindE (run_ffprobe e w filePath) (\<lambda>r w1. (Inr r, logger ''media.video.probed'' [] w1))"

text \<open>The metadata view; \<open>createdAt\<close>, which no property below reads, is left out.\<close>

record MediaMetadataDto =
  md_sha256 :: string
  md_kind :: MediaKind
  md_mime :: string
  md_bytes :: nat
  md_width :: "nat option"
  md_height :: "nat option"
  md_durationMs :: "number option"
  md_storageKeyOriginal :: string
  md_storageKeyThumb :: string

definition getMetadataBySha :: "env \<Rightarrow> world \<Rightarrow> string \<Rightarrow> (error + MediaMetadataDto) \<times> world" where
  "getMetadataBySha e w sha =
     (case findOriginalBySha e w sha of
        (None, w1) \<Rightarrow>
          (Inl (NotFound (''Media with SHA '' @ sha @ '' not found'')),
           logger ''media.metadata.not-found'' [sha] w1)
      | (Some (origPath, extension), w1) \<Rightarrow>
          bindE (extensionToKind extension, w1) (\<lambda>kind w1.
          (let originals = cfg_originalsDir (config e); thumbs = cfg_thumbsDir (config e);
               oKey = buildStorageKey e origPath originals ''o'';
               tPath = deriveThumbPathFromOriginal e origPath thumbs;
               tKey = buildStorageKey e tPath thumbs ''t''
           in bindE (fs_stat_size e w1 origPath, w1) (\<lambda>fileSize w1.
              bindE (if kind = Image then
                       bindE (case fs_readFile e w1 origPath of
                                None \<Rightarrow> Inl (ToolError ''sharp: input file is missing'')
                              | Some contents \<Rightarrow>
                                  (case sharp_metadata e contents of
                                     None \<Rightarrow> Inl (ToolError ''sharp: unsupported image format'')
                                   | Some m \<Rightarrow> Inr m), w1)
                         (\<lambda>m w2. (Inr (d_width m, d_height m, None), w2))
                     else
                       bindE (probeVideo e w1 origPath) (\<lambda>probe w2.
                         (Inr (pr_width probe, pr_height probe,
                               (case pr_durationSec probe of
                                  None \<Rightarrow> None
                                | Some ds \<Rightarrow> Some (math_round (num_times ds 1000)))),
                          w2)))
                (\<lambda>(width, height, durationMs) w2.
              bindE (extensionToMime extension, w2) (\<lambda>mime w2.
                (Inr \<lparr>md_sha256 = sha, md_kind = kind, md_mime = mime, md_bytes = fileSize,
                      md_width = width, md_height = height, md_durationMs = durationMs,
                      md_storageKeyOriginal = oKey, md_storageKeyThumb = tKey\<rparr>,
                 logger ''media.metadata.returned'' [sha] w2)))))))"

section \<open>Image normalizer (image/image.service.ts)\<close>

record ImageNormalizationInput =
  ii_tmpPath :: string
  ii_ext :: string
  ii_mime :: string

record normalized_image =
  ni_data :: buffer
  ni_info :: dims
  ni_ext :: string
  ni_mime :: string

record ImageProcessResult =
  ip_sha :: string
  ip_bytes :: nat
  ip_mime :: string
  ip_ext :: string
  ip_width :: nat
  ip_height :: nat
  ip_paths :: MediaPathsResult

definition image_normalizeExt :: "string \<Rightarrow> error + string" where
  "image_normalizeExt ext =
     (let lower = toLowerCase ext
      in if lower = ''jpg'' \<or> lower = ''jpeg'' then Inr ''jpg''
         else if lower = ''png'' then Inr ''png''
         else if lower = ''webp'' then Inr ''webp''
         else Inl (UnsupportedMediaType (''Unsupported image extension '' @ ext)))"

definition image_extToMime :: "string \<Rightarrow> error + string" where
  "image_extToMime ext =
     (if ext = ''jpg'' then Inr ''image/jpeg''
      else if ext = ''png'' then Inr ''image/png''
      else if ext = ''webp'' then Inr ''image/webp''
      else Inl (UnsupportedMediaType (''Unsupported image extension '' @ ext)))"

text \<open>
  \<open>normalize\<close>: \<open>sharp(tmpPath).rotate()\<close> followed by the encoder of the normalized
  extension (with its fixed options) and \<open>toBuffer\<close>; the codec reads the temp file.
\<close>

definition image_normalize :: "env \<Rightarrow> world \<Rightarrow> string \<Rightarrow> string \<Rightarrow> (error + normalized_image) \<times> world" where
  "image_normalize e w tmpPath ext =
     bindE (image_normalizeExt ext, w) (\<lambda>normalizedExt w.
     bindE (case fs_readFile e w tmpPath of
              None \<Rightarrow> Inl (ToolError ''sharp: input file is missing'')
            | Some input \<Rightarrow>
                (case sharp_toBuffer e normalizedExt input of
                   None \<Rightarrow> Inl (ToolError ''sharp: unsupported image format'')
                 | Some out \<Rightarrow> Inr out), w) (\<lambda>(data, info) w.
     bindE (image_extToMime normalizedExt, w) (\<lambda>mime w.
       (Inr \<lparr>ni_data = data, ni_info = info, ni_ext = normalizedExt, ni_mime = mime\<rparr>, w))))"

definition image_generateThumbnail :: "env \<Rightarrow> buffer \<Rightarrow> string \<Rightarrow> world \<Rightarrow> (error + unit) \<times> world" where
  "image_generateThumbnail e buf tPath w =
     (case sharp_thumbnail e (cfg_thumbImageMax (config e)) buf of
        None \<Rightarrow> (Inl (ToolError ''sharp: unsupported image format''), w)
      | Some thumbBuffer \<Rightarrow> (Inr (), fs_writeFile e tPath thumbBuffer w))"

definition thumbExists :: "env \<Rightarrow> world \<Rightarrow> string \<Rightarrow> bool" where
  "thumbExists e w filePath = fs_exists e w filePath"

definition processImage :: "env \<Rightarrow> world \<Rightarrow> ImageNormalizationInput \<Rightarrow> (error + ImageProcessResult) \<times> world" where
  "processImage e w input =
     bindE (image_normalize e w (ii_tmpPath input) (ii_ext input)) (\<lambda>normalized w.
     (let sha = hashBuffer (sha256hex e) (ni_data normalized)
      in case resolvePathsForSha e w sha (ni_ext normalized) of
           (paths, w1) \<Rightarrow>
     (let w2 = (if isNew paths
                then fs_writeFile e (originalPath paths) (ni_data normalized)
                       (fs_mkdir (posix_dirname (originalPath paths)) w1)
                else w1)
      in
     bindE (if isNew paths then Inr (length (ni_data normalized))
            else fs_stat_size e w2 (originalPath paths), w2) (\<lambda>fileSize w2.
     bindE (if \<not> thumbExists e w2 (thumbPath paths) then
              bindE (image_generateThumbnail e (ni_data normalized) (thumbPath paths)
                       (fs_mkdir (posix_dirname (thumbPath paths)) w2))
                (\<lambda>u w3. (Inr (), logger ''image.thumbnail.generated'' [sha, thumbKey paths] w3))
            else (Inr (), w2)) (\<lambda>u w3.
     (let infoWidth = (case d_width (ni_info normalized) of None \<Rightarrow> 0 | Some x \<Rightarrow> x);
          infoHeight = (case d_height (ni_info normalized) of None \<Rightarrow> 0 | Some x \<Rightarrow> x)
      in (Inr \<lparr>ip_sha = sha, ip_bytes = fileSize, ip_mime = ni_mime normalized,
               ip_ext = ni_ext normalized, ip_width = infoWidth,
               ip_height = infoHeight, ip_paths = paths\<rparr>,
          logger ''image.processed'' [sha, originalKey paths, thumbKey paths] w3)))))))"

section \<open>Video normalizer (video/video.service.ts)\<close>

record VideoNormalizationInput =
  vi_tmpPath :: string
  vi_ext :: string
  vi_mime :: string
  vi_maxDurationSec :: number

record VideoProcessResult =
  vp_sha :: string
  vp_bytes :: nat
  vp_mime :: string
  vp_ext :: string
  vp_width :: nat
  vp_height :: nat
  vp_durationMs :: number
  vp_paths :: MediaPathsResult

definition video_normalizeExt :: "string \<Rightarrow> error + string" where
  "video_normalizeExt ext =
     (let lower = toLowerCase ext
      in if lower = ''mp4'' then Inr ''mp4''
         else if lower = ''mov'' then Inr ''mov''
         else Inl (UnsupportedMediaType (''Unsupported video extension '' @ ext)))"

definition video_extToMime :: "string \<Rightarrow> error + string" where
  "video_extToMime ext =
     (if ext = ''mp4'' then Inr ''video/mp4''
      else if ext = ''mov'' then Inr ''video/quicktime''
      else Inl (UnsupportedMediaType (''Unsupported video extension '' @ ext)))"

text \<open>
  \<open>runFfmpeg(args)\<close>: the input file is the argument after \<open>-i\<close>, the output file the
  last argument. A successful run writes the output file; a failed run is taken to leave
  none behind.
\<close>

definition ffmpeg_input :: "string list \<Rightarrow> string" where
  "ffmpeg_input args = (case dropWhile (\<lambda>a. a \<noteq> ''-i'') args of _ # p # _ \<Rightarrow> p | _ \<Rightarrow> [])"

definition runFfmpeg :: "env \<Rightarrow> string list \<Rightarrow> world \<Rightarrow> (error + unit) \<times> world" where
  "runFfmpeg e args w =
     (case ffmpegPath e of
        None \<Rightarrow> (Inl (ToolError ''ffmpeg binary not found''), w)
      | Some bin \<Rightarrow>
          (let w1 = emit (Ffmpeg args) w
           in case fs_readFile e w (ffmpeg_input args) of
                None \<Rightarrow> (Inl (ToolError ''ffmpeg failed''), w1)
              | Some contents \<Rightarrow>
                  (case ffmpeg e args contents of
                     None \<Rightarrow> (Inl (ToolError ''ffmpeg failed''), w1)
                   | Some out \<Rightarrow> (Inr (), put_file e (last args) out w1))))"

definition strip_copy_args :: "string \<Rightarrow> string \<Rightarrow> string list" where
  "strip_copy_args inputPath tmpOutput =
     [''-i'', inputPath, ''-map'', ''0'', ''-map_metadata'', ''-1'', ''-c'', ''copy'', ''-y'', tmpOutput]"

definition strip_reencode_args :: "string \<Rightarrow> string \<Rightarrow> string list" where
  "strip_reencode_args inputPath tmpOutput =
     [''-i'', inputPath, ''-map_metadata'', ''-1'', ''-c:v'', ''libx264'', ''-preset'', ''veryfast'',
      ''-profile:v'', ''baseline'', ''-pix_fmt'', ''yuv420p'', ''-c:a'', ''aac'', ''-b:a'', ''128k'',
      ''-movflags'', ''+faststart'', ''-y'', tmpOutput]"

definition stripMetadata :: "env \<Rightarrow> string \<Rightarrow> string \<Rightarrow> world \<Rightarrow> (error + string) \<times> world" where
  "stripMetadata e inputPath targetExt w =
     (let tmpOutput = posix_join [posix_dirname inputPath, randomUUID e (uuidCount w) @ ''.'' @ targetExt];
          w1 = w\<lparr>uuidCount := Suc (uuidCount w)\<rparr>
      in case runFfmpeg e (strip_copy_args inputPath tmpOutput) w1 of
           (Inr u, w2) \<Rightarrow> (Inr tmpOutput, w2)
         | (Inl err, w2) \<Rightarrow>
             bindE (runFfmpeg e (strip_reencode_args inputPath tmpOutput)
                      (logger ''video.strip.fallback'' [] (fs_unlink e tmpOutput w2)))
               (\<lambda>u w4. (Inr tmpOutput, w4)))"

definition thumb_args :: "nat \<Rightarrow> string \<Rightarrow> string \<Rightarrow> string list" where
  "thumb_args width origPath tPath =
     [''-ss'', ''0.5'', ''-i'', origPath, ''-frames:v'', ''1'', ''-vf'',
      ''scale='' @ show_nat width @ '':-1'', ''-q:v'', ''4'', ''-y'', tPath]"

definition video_generateThumbnail :: "env \<Rightarrow> string \<Rightarrow> string \<Rightarrow> world \<Rightarrow> (error + unit) \<times> world" where
  "video_generateThumbnail e origPath tPath w =
     runFfmpeg e (thumb_args (cfg_thumbVideoWidth (config e)) origPath tPath) w"

definition processVideo :: "env \<Rightarrow> world \<Rightarrow> VideoNormalizationInput \<Rightarrow> (error + VideoProcessResult) \<times> world" where
  "processVideo e w input =
     bindE (run_ffprobe e w (vi_tmpPath input)) (\<lambda>probe w1.
     (let durationSec = (case pr_durationSec probe of None \<Rightarrow> Num 0 | Some ds \<Rightarrow> ds)
      in if num_gt durationSec (vi_maxDurationSec input) then
           (Inl (PayloadTooLarge ''Video duration exceeds allowed''),
            logger ''video.duration.exceeded'' [] w1)
         else
     bindE (video_normalizeExt (vi_ext input), w1) (\<lambda>normalizedExt w1.
     bindE (video_extToMime normalizedExt, w1) (\<lambda>normalizedMime w1.
     bindE (stripMetadata e (vi_tmpPath input) normalizedExt w1) (\<lambda>normalizedPath w2.
     bindE (hashFile e w2 normalizedPath, w2) (\<lambda>hashResult w2.
     (case resolvePathsForSha e w2 (hr_sha hashResult) normalizedExt of
        (paths, w3) \<Rightarrow>
     bindE (if isNew paths then
              bindE (fs_copyFile e normalizedPath (originalPath paths)
                       (fs_mkdir (posix_dirname (originalPath paths)) w3))
                (\<lambda>u w4. (Inr (), logger ''video.original.persisted''
                                    [hr_sha hashResult, originalKey paths] w4))
            else (Inr (), logger ''video.deduplicated''
                            [hr_sha hashResult, originalKey paths] w3)) (\<lambda>u w4.
     bindE (if \<not> thumbExists e w4 (thumbPath paths) then
              bindE (video_generateThumbnail e (originalPath paths) (thumbPath paths)
                       (fs_mkdir (posix_dirname (thumbPath paths)) w4))
                (\<lambda>u w5. (Inr (), logger ''video.thumbnail.generated''
                                    [hr_sha hashResult, thumbKey paths] w5))
            else (Inr (), w4)) (\<lambda>u w5.
     (let w6 = fs_unlink e normalizedPath w5
      in
     bindE (if isNew paths then Inr (hr_bytes hashResult)
            else fs_stat_size e w6 (originalPath paths), w6) (\<lambda>fileSize w6.
     (let durationMs = math_round (num_times durationSec 1000)
      in (Inr \<lparr>vp_sha = hr_sha hashResult, vp_bytes = fileSize,
               vp_mime = normalizedMime, vp_ext = normalizedExt,
               vp_width = (case pr_width probe of None \<Rightarrow> 0 | Some x \<Rightarrow> x),
               vp_height = (case pr_height probe of None \<Rightarrow> 0 | Some x \<Rightarrow> x),
               vp_durationMs = durationMs, vp_paths = paths\<rparr>,
          logger ''video.processed''
            [hr_sha hashResult, originalKey paths, thumbKey paths] w6)))))))))))))"

section \<open>Ingestion orchestrator (upload/upload.service.ts)\<close>

definition SNIFF_LENGTH :: nat where
  "SNIFF_LENGTH = 4100"

record UploadResponseDto =
  ur_mediaId :: string
  ur_ownerId :: string
  ur_kind :: MediaKind
  ur_mime :: string
  ur_bytes :: nat
  ur_width :: nat
  ur_height :: nat
  ur_durationMs :: "number option"
  ur_storageKeyOriginal :: string
  ur_storageKeyThumb :: string
  ur_sha256 :: string
  ur_status :: string

record upload_meta =
  um_sha :: string
  um_width :: nat
  um_height :: nat
  um_durationMs :: "number option"
  um_deduped :: bool

record UploadProcessingResult =
  up_response :: UploadResponseDto
  up_meta :: upload_meta

text \<open>
  The file stream that the multipart parser hands to the \<open>file\<close> listener: the chunks it
  delivers, whether it emits \<open>limit\<close> (the parser cut the part at its \<open>fileSize\<close> limit),
  and whether it ends with an error instead of a normal end.
\<close>

record file_stream =
  st_chunks :: "buffer list"
  st_limit :: bool
  st_error :: bool

record tap_state =
  sniffChunks :: "buffer list"
  sniffBytes :: nat
  totalBytes :: nat

definition hardLimit :: "env \<Rightarrow> UploadTokenPayload \<Rightarrow> int" where
  "hardLimit e token =
     min (cfg_maxUploadBytes (config e))
         (case tok_maxSize token of None \<Rightarrow> cfg_maxUploadBytes (config e) | Some m \<Rightarrow> m)"

text \<open>The \<open>transform\<close> callback of \<open>tapStream\<close>: the error, or the chunk passed downstream.\<close>

definition tapTransform :: "int \<Rightarrow> tap_state \<Rightarrow> buffer \<Rightarrow> (error + buffer) \<times> tap_state" where
  "tapTransform limit st buf =
     (let st1 = (if sniffBytes st < SNIFF_LENGTH then
                   (let slice = take (SNIFF_LENGTH - sniffBytes st) buf
                    in st\<lparr>sniffChunks := sniffChunks st @ [slice],
                          sniffBytes := sniffBytes st + length slice\<rparr>)
                 else st);
          st2 = st1\<lparr>totalBytes := totalBytes st1 + length buf\<rparr>
      in if int (totalBytes st2) > limit
         then (Inl (PayloadTooLarge ''File exceeds allowed size''), st2)
         else (Inr buf, st2))"

definition fs_createWriteStream :: "env \<Rightarrow> string \<Rightarrow> world \<Rightarrow> world" where
  "fs_createWriteStream e p w = put_file e p [] (emit (CreateWriteStream p) w)"

definition fs_streamWrite :: "env \<Rightarrow> string \<Rightarrow> buffer \<Rightarrow> world \<Rightarrow> world" where
  "fs_streamWrite e p b w =
     put_file e p ((case fs_readFile e w p of None \<Rightarrow> [] | Some d \<Rightarrow> d) @ b)
       (emit (StreamWrite p (length b)) w)"

text \<open>
  \<open>await pipeline(fileStream, tapStream, fileWriteStream)\<close>: chunk after chunk goes
  through the tap into the temp file; the first error of the tap, or the error that ends
  the source stream, rejects the pipeline.
\<close>

fun pipeline :: "env \<Rightarrow> int \<Rightarrow> string \<Rightarrow> bool \<Rightarrow> buffer list \<Rightarrow> tap_state \<Rightarrow> world
                 \<Rightarrow> error option \<times> tap_state \<times> world" where
  "pipeline e limit tmpPath fails [] st w =
     ((if fails then Some (ToolError ''stream error'') else None), st, w)"
| "pipeline e limit tmpPath fails (chunk # rest) st w =
     (case tapTransform limit st chunk of
        (Inl err, st') \<Rightarrow> (Some err, st', w)
      | (Inr buf, st') \<Rightarrow> pipeline e limit tmpPath fails rest st' (fs_streamWrite e tmpPath buf w))"

definition kind_name :: "MediaKind \<Rightarrow> string" where
  "kind_name k = (case k of Image \<Rightarrow> ''image'' | Video \<Rightarrow> ''video'')"

definition assertMimeAllowed :: "env \<Rightarrow> string \<Rightarrow> MediaKind \<Rightarrow> world \<Rightarrow> (error + unit) \<times> world" where
  "assertMimeAllowed e mime kind w =
     (let allowed = (if kind = Image then cfg_allowedImageMime (config e)
                     else cfg_allowedVideoMime (config e))
      in if mime \<notin> set allowed then
           (Inl (UnsupportedMediaType (''MIME type '' @ mime @ '' not allowed for '' @ kind_name kind)),
            logger ''upload.mime.rejected'' [mime, kind_name kind] w)
         else (Inr (), w))"

definition handleImageUpload :: "env \<Rightarrow> string \<Rightarrow> string \<Rightarrow> string \<Rightarrow> UploadTokenPayload \<Rightarrow> world
                                  \<Rightarrow> (error + UploadProcessingResult) \<times> world" where
  "handleImageUpload e tmpPath ext mime token w =
     bindE (processImage e w \<lparr>ii_tmpPath = tmpPath, ii_ext = ext, ii_mime = mime\<rparr>) (\<lambda>processed w1.
       (Inr \<lparr>up_response =
               \<lparr>ur_mediaId = randomUUID e (uuidCount w1), ur_ownerId = tok_sub token,
                ur_kind = Image, ur_mime = ip_mime processed, ur_bytes = ip_bytes processed,
                ur_width = ip_width processed, ur_height = ip_height processed,
                ur_durationMs = None,
                ur_storageKeyOriginal = originalKey (ip_paths processed),
                ur_storageKeyThumb = thumbKey (ip_paths processed),
                ur_sha256 = ip_sha processed, ur_status = ''ready''\<rparr>,
             up_meta =
               \<lparr>um_sha = ip_sha processed, um_width = ip_width processed,
                um_height = ip_height processed, um_durationMs = None,
                um_deduped = (\<not> isNew (ip_paths processed))\<rparr>\<rparr>,
        w1\<lparr>uuidCount := Suc (uuidCount w1)\<rparr>))"

definition handleVideoUpload :: "env \<Rightarrow> string \<Rightarrow> string \<Rightarrow> string \<Rightarrow> UploadTokenPayload \<Rightarrow> world
                                  \<Rightarrow> (error + UploadProcessingResult) \<times> world" where
  "handleVideoUpload e tmpPath ext mime token w =
     (let maxVideoSec = (case tok_maxVideoSec token of None \<Rightarrow> Num 60 | Some m \<Rightarrow> m)
      in bindE (processVideo e w \<lparr>vi_tmpPath = tmpPath, vi_ext = ext, vi_mime = mime,
                                    vi_maxDurationSec = maxVideoSec\<rparr>) (\<lambda>processed w1.
           (Inr \<lparr>up_response =
                   \<lparr>ur_mediaId = randomUUID e (uuidCount w1), ur_ownerId = tok_sub token,
                    ur_kind = Video, ur_mime = vp_mime processed, ur_bytes = vp_bytes processed,
                    ur_width = vp_width processed, ur_height = vp_height processed,
                    ur_durationMs = Some (vp_durationMs processed),
                    ur_storageKeyOriginal = originalKey (vp_paths processed),
                    ur_storageKeyThumb = thumbKey (vp_paths processed),
                    ur_sha256 = vp_sha processed, ur_status = ''ready''\<rparr>,
                 up_meta =
                   \<lparr>um_sha = vp_sha processed, um_width = vp_width processed,
                    um_height = vp_height processed,
                    um_durationMs = Some (vp_durationMs processed),
                    um_deduped = (\<not> isNew (vp_paths processed))\<rparr>\<rparr>,
            w1\<lparr>uuidCount := Suc (uuidCount w1)\<rparr>)))"

text \<open>
  \<open>processIncomingFile\<close> in its three stages. \<open>bufferUpload\<close> is the streaming stage up
  to the empty-file check: it returns the temp path and the state of the tap. The
  \<open>limit\<close> listener only sets a flag and logs, which is done up front here.
\<close>

definition bufferUpload :: "env \<Rightarrow> world \<Rightarrow> file_stream \<Rightarrow> string \<Rightarrow> int
                             \<Rightarrow> (error + string \<times> tap_state) \<times> world" where
  "bufferUpload e w fileStream filename limit =
     (let tmpFile = randomUUID e (uuidCount w) @ ''.tmp'';
          tmpPath = posix_join [cfg_tmpDir (config e), tmpFile];
          w1 = fs_createWriteStream e tmpPath (w\<lparr>uuidCount := Suc (uuidCount w)\<rparr>);
          w2 = logger ''upload.stream.start'' [tmpFile, filename] w1;
          w3 = (if st_limit fileStream then logger ''upload.limit.busboy'' [] w2 else w2)
      in case pipeline e limit tmpPath (st_error fileStream) (st_chunks fileStream)
                \<lparr>sniffChunks = [], sniffBytes = 0, totalBytes = 0\<rparr> w3 of
           (Some err, st, w4) \<Rightarrow>
             (let w5 = fs_unlink e tmpPath w4
              in case err of
                   PayloadTooLarge m \<Rightarrow> (Inl err, w5)
                 | _ \<Rightarrow> (Inl (BadRequest ''Failed to read upload stream''),
                         logger ''upload.stream.error'' [] w5))
         | (None, st, w4) \<Rightarrow>
             (let w5 = logger ''upload.stream.completed'' [tmpFile] w4
              in if st_limit fileStream then
                   (Inl (PayloadTooLarge ''File exceeds allowed size''), fs_unlink e tmpPath w5)
                 else if totalBytes st = 0 then
                   (Inl (BadRequest ''Uploaded file is empty''),
                    logger ''upload.file.empty'' [] (fs_unlink e tmpPath w5))
                 else (Inr (tmpPath, st), w5)))"

text \<open>Sniffing and the allow-list check (the lines between the streaming and the dispatch).\<close>

definition detectType :: "env \<Rightarrow> UploadTokenPayload \<Rightarrow> string \<Rightarrow> tap_state \<Rightarrow> world
                           \<Rightarrow> (error + string \<times> string) \<times> world" where
  "detectType e token tmpPath st w =
     (let sniffBuffer = concat (sniffChunks st)
      in case fileTypeFromBuffer e sniffBuffer of
           None \<Rightarrow>
             (Inl (UnsupportedMediaType ''Unable to detect file type''),
              logger ''upload.mime.unknown'' [] (fs_unlink e tmpPath w))
         | Some (ext, mime) \<Rightarrow>
             bindE (assertMimeAllowed e mime (tok_kind token)
                      (logger ''upload.media.detected'' [mime, ext] w))
               (\<lambda>u w2. (Inr (ext, mime), w2)))"

text \<open>The dispatch to the normalizer, inside \<open>try ... finally\<close>.\<close>

definition normalizeUpload :: "env \<Rightarrow> UploadTokenPayload \<Rightarrow> string \<Rightarrow> string \<Rightarrow> string \<Rightarrow> world
                                \<Rightarrow> (error + UploadProcessingResult) \<times> world" where
  "normalizeUpload e token tmpPath ext mime w =
     (case (if tok_kind token = Image then
              bindE (handleImageUpload e tmpPath ext mime token w)
                (\<lambda>r w1. (Inr r, logger ''upload.image.processed'' [um_sha (up_meta r)] w1))
            else
              bindE (handleVideoUpload e tmpPath ext mime token w)
                (\<lambda>r w1. (Inr r, logger ''upload.video.processed'' [um_sha (up_meta r)] w1))) of
        (res, w1) \<Rightarrow> (res, fs_unlink e tmpPath w1))"

definition processIncomingFile :: "env \<Rightarrow> world \<Rightarrow> file_stream \<Rightarrow> string \<Rightarrow> UploadTokenPayload \<Rightarrow> int
                                    \<Rightarrow> (error + UploadProcessingResult) \<times> world" where
  "processIncomingFile e w fileStream filename token limit =
     bindE (bufferUpload e w fileStream filename limit) (\<lambda>(tmpPath, st) w1.
     bindE (detectType e token tmpPath st w1) (\<lambda>(ext, mime) w2.
       normalizeUpload e token tmpPath ext mime w2))"

text \<open>
  The multipart parser (the \<open>busboy\<close> library) is not part of the repository; it is
  described by what it emits for a request body under the limits that \<open>handleUpload\<close>
  gives it. Of the file parts of the body the first \<open>files\<close> are announced with a
  \<open>file\<close> event, the others are skipped. The data of an announced part is passed on
  piece by piece until \<open>fileSize\<close> bytes have been delivered: the piece that reaches
  the limit is cut there, the stream emits \<open>limit\<close>, and the rest of the part is
  dropped. A limit below zero leaves room for no byte. A part inside which the body breaks
  off ends its stream with an error. After the parts the parser emits \<open>finish\<close>, or
  \<open>error\<close> when the body is malformed.
\<close>

record file_part =
  fp_filename :: string
  fp_data :: "buffer list"
  fp_broken :: bool

datatype parser_event = FileEvent string file_stream | ErrorEvent string | FinishEvent

fun busboy_cut :: "int \<Rightarrow> nat \<Rightarrow> buffer list \<Rightarrow> buffer list \<times> bool" where
  "busboy_cut fileSizeLimit fileSize [] = ([], False)"
| "busboy_cut fileSizeLimit fileSize (d # ds) =
     (if d = [] then busboy_cut fileSizeLimit fileSize ds
      else
        (let actualLen = min (int (length d)) (fileSizeLimit - int fileSize);
             chunk = take (nat actualLen) d;
             fileSize' = fileSize + length chunk
         in if int fileSize' = fileSizeLimit then ((if chunk = [] then [] else [chunk]), True)
            else (case busboy_cut fileSizeLimit fileSize' ds of
                    (chunks, hit) \<Rightarrow> ((if chunk = [] then chunks else chunk # chunks), hit))))"

definition busboy_file :: "int \<Rightarrow> file_part \<Rightarrow> file_stream" where
  "busboy_file fileSizeLimit part =
     (case busboy_cut fileSizeLimit 0 (fp_data part) of
        (chunks, hit) \<Rightarrow> \<lparr>st_chunks = chunks, st_limit = hit, st_error = fp_broken part\<rparr>)"

text \<open>
  The request as the parser meets it: \<open>rq_form_error\<close> is the error with which the
  constructor of the parser throws when the headers announce no form body,
  \<open>rq_parts\<close> are the file parts of the body in order, \<open>rq_error\<close> is the error
  of the parser on a malformed body. The processing of the file runs asynchronously;
  \<open>rq_tail_late\<close> says that the rest of the body arrives so late that the processing
  is over before the parser emits its next event.
\<close>

record upload_request =
  rq_form_error :: "string option"
  rq_parts :: "file_part list"
  rq_error :: "string option"
  rq_tail_late :: bool

definition busboy :: "nat \<Rightarrow> int \<Rightarrow> upload_request \<Rightarrow> parser_event list" where
  "busboy filesLimit fileSizeLimit rq =
     map (\<lambda>part. FileEvent (fp_filename part) (busboy_file fileSizeLimit part))
       (take filesLimit (rq_parts rq))
     @ [case rq_error rq of None \<Rightarrow> FinishEvent | Some msg \<Rightarrow> ErrorEvent msg]"

text \<open>
  The promise that \<open>handleUpload\<close> returns, with the two flags of its closure
  (\<open>processed\<close> and \<open>finished\<close>):
  \<open>hs_running\<close> holds the result of \<open>processIncomingFile\<close> until its promise settles,
  \<open>hs_outcome\<close> is the value with which the promise of the request was resolved or
  rejected. Only the first call of \<open>resolve\<close> or \<open>reject\<close> counts.
\<close>

record upload_promise =
  hs_processed :: bool
  hs_finished :: bool
  hs_running :: "(error + UploadProcessingResult) option"
  hs_outcome :: "(error + UploadResponseDto) option"

definition settle :: "error + UploadResponseDto \<Rightarrow> upload_promise \<Rightarrow> upload_promise" where
  "settle r p = (case hs_outcome p of None \<Rightarrow> p\<lparr>hs_outcome := Some r\<rparr> | Some r0 \<Rightarrow> p)"

text \<open>The \<open>file\<close> listener.\<close>

definition onFile :: "env \<Rightarrow> UploadTokenPayload \<Rightarrow> int \<Rightarrow> string \<Rightarrow> file_stream
                       \<Rightarrow> upload_promise \<times> world \<Rightarrow> upload_promise \<times> world" where
  "onFile e token limit filename file s =
     (case s of (p, w) \<Rightarrow>
        if hs_processed p then
          (settle (Inl (BadRequest ''Only one file is allowed per request'')) p,
           logger ''upload.multiple-files'' [] w)
        else
          (case processIncomingFile e w file filename token limit of
             (r, w1) \<Rightarrow> (p\<lparr>hs_processed := True, hs_running := Some r\<rparr>, w1)))"

text \<open>The \<open>then\<close>, \<open>catch\<close> and \<open>finally\<close> callbacks of the file's processing.\<close>

definition onSettled :: "upload_promise \<times> world \<Rightarrow> upload_promise \<times> world" where
  "onSettled s =
     (case s of (p, w) \<Rightarrow>
        (case hs_running p of
           None \<Rightarrow> (p, w)
         | Some (Inr r) \<Rightarrow>
             (settle (Inr (up_response r)) (p\<lparr>hs_running := None, hs_finished := True\<rparr>),
              logger ''upload.request.completed'' [ur_mediaId (up_response r)] w)
         | Some (Inl err) \<Rightarrow>
             (settle (Inl err) (p\<lparr>hs_running := None, hs_finished := True\<rparr>),
              logger ''upload.request.failed'' [] w)))"

text \<open>The \<open>error\<close> and \<open>finish\<close> listeners.\<close>

definition onError :: "string \<Rightarrow> upload_promise \<times> world \<Rightarrow> upload_promise \<times> world" where
  "onError msg s =
     (case s of (p, w) \<Rightarrow> if \<not> hs_finished p then (settle (Inl (BadRequest msg)) p, w) else (p, w))"

definition onFinish :: "upload_promise \<times> world \<Rightarrow> upload_promise \<times> world" where
  "onFinish s =
     (case s of (p, w) \<Rightarrow>
        if \<not> hs_processed p then (settle (Inl (BadRequest ''No file field provided'')) p, w)
        else (p, w))"

definition dispatch :: "env \<Rightarrow> UploadTokenPayload \<Rightarrow> int \<Rightarrow> parser_event
                         \<Rightarrow> upload_promise \<times> world \<Rightarrow> upload_promise \<times> world" where
  "dispatch e token limit ev s =
     (case ev of
        FileEvent filename file \<Rightarrow> onFile e token limit filename file s
      | ErrorEvent msg \<Rightarrow> onError msg s
      | FinishEvent \<Rightarrow> onFinish s)"

text \<open>
  \<open>handleUpload\<close>: the byte ceiling is computed from the configuration and the claim
  and given to the parser as its \<open>fileSize\<close> limit, together with \<open>files: 1\<close>; the
  listeners run in the order of the parser's events. The result is the value with which
  the promise was settled, \<open>None\<close> if it never is.
\<close>

definition handleUpload :: "env \<Rightarrow> world \<Rightarrow> upload_request \<Rightarrow> UploadTokenPayload
                             \<Rightarrow> (error + UploadResponseDto) option \<times> world" where
  "handleUpload e w rq token =
     (let limit = hardLimit e token;
          w1 = logger ''upload.request.received'' [] w
      in case rq_form_error rq of
           Some msg \<Rightarrow> (Some (Inl (ToolError msg)), w1)
         | None \<Rightarrow>
             (let s0 = (\<lparr>hs_processed = False, hs_finished = False, hs_running = None, hs_outcome = None\<rparr>, w1);
                  s1 = foldl (\<lambda>s ev. (if rq_tail_late rq then onSettled else id)
                                        (dispatch e token limit ev s))
                         s0 (busboy 1 limit rq);
                  s2 = onSettled s1
              in (hs_outcome (fst s2), snd s2)))"

section \<open>The type decision, stated on the leading bytes\<close>

text \<open>
  What the sniffing stage is to compute, written from the description alone: the sniffer is
  applied to the leading bytes of the body, an undetectable type is an error, and a
  detected MIME type is accepted exactly when the allow-list of the claimed kind contains
  it. \<open>tap_inv\<close> is the invariant of the tap: \<open>sniffBytes\<close> counts the buffered bytes,
  never more than \<open>SNIFF_LENGTH\<close>.
\<close>

definition tap_inv :: "tap_state \<Rightarrow> bool" where
  "tap_inv st \<longleftrightarrow> sniffBytes st = length (concat (sniffChunks st)) \<and> sniffBytes st \<le> SNIFF_LENGTH"

definition allowedMime :: "env \<Rightarrow> MediaKind \<Rightarrow> string list" where
  "allowedMime e kind =
     (if kind = Image then cfg_allowedImageMime (config e) else cfg_allowedVideoMime (config e))"

definition typeDecision :: "env \<Rightarrow> MediaKind \<Rightarrow> buffer \<Rightarrow> error + string \<times> string" where
  "typeDecision e kind prefix =
     (case fileTypeFromBuffer e prefix of
        None \<Rightarrow> Inl (UnsupportedMediaType ''Unable to detect file type'')
      | Some (ext, mime) \<Rightarrow>
          if mime \<in> set (allowedMime e kind) then Inr (ext, mime)
          else Inl (UnsupportedMediaType (''MIME type '' @ mime @ '' not allowed for '' @ kind_name kind)))"

section \<open>Vocabulary for the properties of the path allocator\<close>

text \<open>
  A \<open>proper\<close> segment is a file or directory name: not empty, not \<open>.\<close> or \<open>..\<close>,
  without a separator; resolved paths consist of proper segments, and \<open>wf_files\<close> says
  that the keys of the file system do. A \<open>safe_name\<close> has neither a separator nor a
  dot, as hexadecimal digests and the extensions of the normalizers have.
  \<open>stored_originals\<close> lists the files below the originals root with a given name, in
  walk order; \<open>date_segments\<close> are the three segments of today's bucket and \<open>dec k n\<close>
  is the decimal numeral of \<open>n\<close> with exactly \<open>k\<close> digits.
\<close>

definition proper :: "string \<Rightarrow> bool" where
  "proper s \<longleftrightarrow> s \<noteq> [] \<and> s \<noteq> ''.'' \<and> s \<noteq> ''..'' \<and> CHR ''/'' \<notin> set s"

definition canon :: "string list \<Rightarrow> bool" where
  "canon segs \<longleftrightarrow> (\<forall>s\<in>set segs. s \<noteq> [] \<and> s \<noteq> ''.'' \<and> CHR ''/'' \<notin> set s)"

definition safe_name :: "string \<Rightarrow> bool" where
  "safe_name s \<longleftrightarrow> CHR ''/'' \<notin> set s \<and> CHR ''.'' \<notin> set s"

definition date_segments :: "date \<Rightarrow> string list" where
  "date_segments d = [show_int (date_year d), padStart2 (show_nat (date_month d + 1)),
                      padStart2 (show_nat (date_day d))]"

definition under_root :: "string list \<Rightarrow> string list \<Rightarrow> bool" where
  "under_root rt k \<longleftrightarrow> length rt < length k \<and> take (length rt) k = rt"

definition originals_root :: "env \<Rightarrow> string list" where
  "originals_root e = fs_key e (cfg_originalsDir (config e))"

definition thumbs_root :: "env \<Rightarrow> string list" where
  "thumbs_root e = fs_key e (cfg_thumbsDir (config e))"

definition stored_originals :: "env \<Rightarrow> world \<Rightarrow> string \<Rightarrow> string list list" where
  "stored_originals e w name =
     filter (\<lambda>k. under_root (originals_root e) k \<and> last k = name) (map fst (files w))"

definition wf_files :: "world \<Rightarrow> bool" where
  "wf_files w \<longleftrightarrow> (\<forall>k\<in>set (map fst (files w)). \<forall>s\<in>set k. proper s)"

definition bucket_of :: "env \<Rightarrow> string list \<Rightarrow> string list" where
  "bucket_of e k = butlast (drop (length (originals_root e)) k)"

definition dir_string :: "string list \<Rightarrow> string" where
  "dir_string segs = (if segs = [] then ''.'' else join_sep segs)"

fun dec :: "nat \<Rightarrow> nat \<Rightarrow> string" where
  "dec 0 n = []"
| "dec (Suc k) n = dec k (n div 10) @ [digit_char (n mod 10)]"

section \<open>A probe that reports a duration of zero\<close>


section \<open>A sample deployment\<close>

text \<open>
  The default configuration of \<open>config/environment.ts\<close> with small stand-ins for the
  external tools, used to run the model on concrete requests.
\<close>

definition hex_byte :: "8 word \<Rightarrow> string" where
  "hex_byte b = [''0123456789abcdef'' ! (unat b div 16), ''0123456789abcdef'' ! (unat b mod 16)]"

definition ex_digest :: "buffer \<Rightarrow> string" where
  "ex_digest b = take 64 (concat (map hex_byte b) @ replicate 64 CHR ''0'')"

definition ex_sniff :: "buffer \<Rightarrow> (string \<times> string) option" where
  "ex_sniff b =
     (if take 3 b = [0xFF, 0xD8, 0xFF] then Some (''jpg'', ''image/jpeg'')
      else if take 4 b = [0x47, 0x49, 0x46, 0x38] then Some (''gif'', ''image/gif'')
      else if take 4 (drop 4 b) = [0x66, 0x74, 0x79, 0x70] then Some (''mp4'', ''video/mp4'')
      else None)"

definition ex_config :: config where
  "ex_config = \<lparr>cfg_tmpDir = ''/data/storage/tmp'', cfg_originalsDir = ''/data/storage/o'',
     cfg_thumbsDir = ''/data/storage/t'', cfg_maxUploadBytes = 52428800,
     cfg_allowedImageMime = [''image/jpeg'', ''image/png'', ''image/webp''],
     cfg_allowedVideoMime = [''video/mp4'', ''video/quicktime''],
     cfg_thumbImageMax = 512, cfg_thumbVideoWidth = 512\<rparr>"

definition ex_env :: env where
  "ex_env = \<lparr>config = ex_config, cwd = ''/srv/app'', sha256hex = ex_digest,
     fileTypeFromBuffer = ex_sniff,
     sharp_toBuffer = (\<lambda>fmt input. if input = [] then None else Some (0xFF # 0xD8 # 0xFF # drop 3 input, \<lparr>d_width = Some 4, d_height = Some 3\<rparr>)),
     sharp_thumbnail = (\<lambda>m input. Some (take 4 input)),
     sharp_metadata = (\<lambda>input. if take 3 input = [0xFF, 0xD8, 0xFF] then Some \<lparr>d_width = Some 4, d_height = Some 3\<rparr> else None),
     ffprobePath = Some ''/usr/bin/ffprobe'',
     ffprobe = (\<lambda>input. if input = [] then None
                 else Some \<lparr>pj_format_duration = (if length input < 10 then None else Some ''15.0''),
                           pj_streams = [\<lparr>ps_codec_type = Some ''video'', ps_width = Some 640, ps_height = Some 360\<rparr>]\<rparr>),
     ffmpegPath = Some ''/usr/bin/ffmpeg'',
     ffmpeg = (\<lambda>args input. Some (take 8 input)),
     parseFloat = (\<lambda>s. if s = ''15.0'' then Num 15 else NaN),
     randomUUID = (\<lambda>n. ''uuid-'' @ show_nat n)\<rparr>"

definition ex_world :: world where
  "ex_world = \<lparr>files = [], events = [], logs = [], uuidCount = 0,
     today = \<lparr>date_year = 2026, date_month = 10, date_day = 3\<rparr>\<rparr>"

definition ex_image_token :: UploadTokenPayload where
  "ex_image_token = \<lparr>tok_sub = ''user-1'', tok_kind = Image, tok_maxSize = Some 16,
     tok_postId = None, tok_maxVideoSec = None, tok_exp = 1800000000\<rparr>"

definition ex_gif_stream :: file_stream where
  "ex_gif_stream = \<lparr>st_chunks = [[0x47, 0x49, 0x46, 0x38], [0x39, 0x61]], st_limit = False, st_error = False\<rparr>"

definition ex_jpeg_stream :: file_stream where
  "ex_jpeg_stream = \<lparr>st_chunks = [[0xFF, 0xD8, 0xFF, 0xE0], [0x00, 0x10]], st_limit = False, st_error = False\<rparr>"

definition ex_big_part :: file_part where
  "ex_big_part = \<lparr>fp_filename = ''big.jpg'',
     fp_data = [[0xFF, 0xD8, 0xFF, 0xE0], replicate 10 0, replicate 10 1, [7, 7]], fp_broken = False\<rparr>"

definition ex_request :: "file_part \<Rightarrow> upload_request" where
  "ex_request part = \<lparr>rq_form_error = None, rq_parts = [part], rq_error = None, rq_tail_late = False\<rparr>"


definition ex_video_world :: world where
  "ex_video_world = ex_world\<lparr>files := [([''data'', ''storage'', ''tmp'', ''up.tmp''],
       [0, 0, 0, 0x18, 0x66, 0x74, 0x79, 0x70, 0x6D, 0x70, 0x34, 0x32])]\<rparr>"


definition ex_video_input :: VideoNormalizationInput where
  "ex_video_input = \<lparr>vi_tmpPath = ''/data/storage/tmp/up.tmp'', vi_ext = ''mp4'',
     vi_mime = ''video/mp4'', vi_maxDurationSec = Num 10\<rparr>"

text \<open>The errors that tools and type checks raise, as opposed to the size and request errors.\<close>

definition tool_or_type_error :: "error \<Rightarrow> bool" where
  "tool_or_type_error err =
     (case err of ToolError m \<Rightarrow> True | UnsupportedMediaType m \<Rightarrow> True | _ \<Rightarrow> False)"

section \<open>Properties\<close>

subsection \<open>Sequencing\<close>



lemma bindE_simps [simp]:
  "bindE (Inl err, w) f = (Inl err, w)" "bindE (Inr x, w) f = f x w"
  by (simp_all add: bindE_def)

lemma tool_or_type_error_simps [simp]:
  "tool_or_type_error (ToolError m)" "tool_or_type_error (UnsupportedMediaType m)"
  "\<not> tool_or_type_error (PayloadTooLarge m)" "\<not> tool_or_type_error (BadRequest m)"
  "\<not> tool_or_type_error (NotFound m)"
  by (simp_all add: tool_or_type_error_def)

subsection \<open>The hasher\<close>

lemma hashFile_loop_acc:
  "hashFile_loop h n cs = (h @ concat cs, n + length (concat cs))"
  by (induction cs arbitrary: h n) (simp_all add: hash_update_def)

lemma concat_chunksOf: "concat (chunksOf n xs) = xs"
proof (induction n xs rule: chunksOf.induct)
  case (1 n xs)
  show ?case
  proof (cases "n = 0 \<or> xs = []")
    case True
    then show ?thesis by (auto simp: chunksOf.simps [of n xs])
  next
    case False
    with "1" have "concat (chunksOf n (drop n xs)) = drop n xs" by simp
    with False show ?thesis by (simp add: chunksOf.simps [of n xs])
  qed
qed

lemma hashFile_chunks_concat:
  "hashFile_chunks H cs = \<lparr>hr_sha = hashBuffer H (concat cs), hr_bytes = length (concat cs)\<rparr>"
  by (simp add: hashFile_chunks_def hashFile_loop_acc hashBuffer_def hash_digest_def
      hash_update_def createHash_def)


lemma hashFile_read [code]:
  "hashFile e w filePath =
     (case fs_readFile e w filePath of
        None \<Rightarrow> Inl (ToolError ''ENOENT'')
      | Some B \<Rightarrow> Inr \<lparr>hr_sha = hashBuffer (sha256hex e) B, hr_bytes = length B\<rparr>)"
  by (simp add: hashFile_chunks_concat hashFile_def createReadStream_def concat_chunksOf
      split: option.split)

text \<open>
  Claim C9. The two digest functions agree: whatever chunks the read stream cuts the
  contents of a file into, \<open>hashFile\<close> returns the digest that \<open>hashBuffer\<close> gives
  for the whole contents, and the length of the contents as its byte count; it fails
  only when the file cannot be read.
\<close>

theorem hashFile_agrees_with_hashBuffer:
  "hashFile_chunks H cs = \<lparr>hr_sha = hashBuffer H (concat cs), hr_bytes = length (concat cs)\<rparr>
   \<and> hashFile e w filePath =
       (case fs_readFile e w filePath of
          None \<Rightarrow> Inl (ToolError ''ENOENT'')
        | Some B \<Rightarrow> Inr \<lparr>hr_sha = hashBuffer (sha256hex e) B, hr_bytes = length B\<rparr>)"
  by (simp add: hashFile_chunks_concat hashFile_def createReadStream_def concat_chunksOf
      split: option.split)

theorem hashFile_agrees_with_hashBuffer_witness:
  "hashFile_chunks ex_digest [[1, 2], [], [3]] = \<lparr>hr_sha = hashBuffer ex_digest [1, 2, 3], hr_bytes = 3\<rparr>
   \<and> hashFile ex_env (ex_world\<lparr>files := [([''data'', ''clip.mp4''], [1, 2, 3])]\<rparr>) ''/data/clip.mp4''
       = Inr \<lparr>hr_sha = hashBuffer ex_digest [1, 2, 3], hr_bytes = 3\<rparr>"
proof -
  have r: "fs_readFile ex_env (ex_world\<lparr>files := [([''data'', ''clip.mp4''], [1, 2, 3])]\<rparr>) ''/data/clip.mp4''
             = Some [1, 2, 3]"
    by code_simp
  have s: "sha256hex ex_env = ex_digest" by (simp add: ex_env_def)
  from hashFile_agrees_with_hashBuffer
         [of ex_digest "[[1, 2], [], [3]]" ex_env
             "ex_world\<lparr>files := [([''data'', ''clip.mp4''], [1, 2, 3])]\<rparr>" "''/data/clip.mp4''"]
  show ?thesis by (simp add: r s)
qed

subsection \<open>The world after each file-system step\<close>

lemma emit_simps [simp]:
  "files (emit ev w) = files w" "events (emit ev w) = events w @ [ev]"
  "logs (emit ev w) = logs w" "uuidCount (emit ev w) = uuidCount w" "today (emit ev w) = today w"
  by (simp_all add: emit_def)

lemma logger_simps [simp]:
  "files (logger c d w) = files w" "events (logger c d w) = events w"
  "logs (logger c d w) = logs w @ [(c, d)]" "uuidCount (logger c d w) = uuidCount w"
  "today (logger c d w) = today w"
  by (simp_all add: logger_def)

lemma put_file_simps [simp]:
  "files (put_file e p d w) = AList.update (fs_key e p) d (files w)"
  "events (put_file e p d w) = events w"
  "logs (put_file e p d w) = logs w" "uuidCount (put_file e p d w) = uuidCount w"
  "today (put_file e p d w) = today w"
  by (simp_all add: put_file_def)

lemma fs_unlink_simps [simp]:
  "files (fs_unlink e p w) = AList.delete (fs_key e p) (files w)"
  "events (fs_unlink e p w) = events w @ [Unlink p]"
  "logs (fs_unlink e p w) = logs w" "uuidCount (fs_unlink e p w) = uuidCount w"
  "today (fs_unlink e p w) = today w"
  by (simp_all add: fs_unlink_def)

subsection \<open>Streaming under the byte ceiling\<close>

lemma fs_streamWrite_simps:
  "AList.delete (fs_key e p) (files (fs_streamWrite e p b w)) = AList.delete (fs_key e p) (files w)"
  "events (fs_streamWrite e p b w) = events w @ [StreamWrite p (length b)]"
  "logs (fs_streamWrite e p b w) = logs w" "uuidCount (fs_streamWrite e p b w) = uuidCount w"
  "today (fs_streamWrite e p b w) = today w"
  by (simp_all add: fs_streamWrite_def delete_update_same)

lemma tapTransform_total:
  "totalBytes (snd (tapTransform limit st buf)) = totalBytes st + length buf"
  by (simp add: tapTransform_def Let_def)

lemma tapTransform_Inl:
  "fst (tapTransform limit st buf) = 
     (if int (totalBytes st + length buf) > limit then Inl (PayloadTooLarge ''File exceeds allowed size'') else Inr buf)"
  by (simp add: tapTransform_def Let_def)

lemma fs_createWriteStream_simps [simp]:
  "files (fs_createWriteStream e p w) = AList.update (fs_key e p) [] (files w)"
  "events (fs_createWriteStream e p w) = events w @ [CreateWriteStream p]"
  "logs (fs_createWriteStream e p w) = logs w" "uuidCount (fs_createWriteStream e p w) = uuidCount w"
  "today (fs_createWriteStream e p w) = today w"
  by (simp_all add: fs_createWriteStream_def)

lemma not_exists_after_delete: "files w' = AList.delete (fs_key e p) al \<Longrightarrow> \<not> fs_exists e w' p"
  by (simp add: fs_exists_def fs_readFile_def delete_conv')

lemma busboy_cut_over:
  "int n \<le> l \<Longrightarrow> l < int (n + length (concat ds)) \<Longrightarrow>
     snd (busboy_cut l n ds) \<and> concat (fst (busboy_cut l n ds)) = take (nat l - n) (concat ds)"
proof (induction ds arbitrary: n)
  case Nil
  then show ?case by simp
next
  case (Cons d ds)
  show ?case
  proof (cases "d = []")
    case True
    with Cons show ?thesis by simp
  next
    case False
    show ?thesis
    proof (cases "l - int n \<le> int (length d)")
      case True
      with Cons.prems have a: "min (int (length d)) (l - int n) = l - int n" by simp
      from True Cons.prems have b: "nat (l - int n) \<le> length d" by simp
      from Cons.prems have c: "nat (l - int n) = nat l - n" by simp
      from b c have d: "int (n + min (length d) (nat l - n)) = l" using Cons.prems by simp
      from False a b c d show ?thesis by (simp add: Let_def)
    next
      case False
      then have lt: "int (length d) < l - int n" by simp
      then have a: "min (int (length d)) (l - int n) = int (length d)" by simp
      from lt have le: "int (n + length d) \<le> l" by simp
      from lt have ne: "int (n + length d) \<noteq> l" by simp
      from Cons.prems have "l < int ((n + length d) + length (concat ds))" by (simp add: add.assoc)
      from Cons.IH [OF le this]
      have ih: "snd (busboy_cut l (n + length d) ds)"
               "concat (fst (busboy_cut l (n + length d) ds)) = take (nat l - (n + length d)) (concat ds)"
        by simp_all
      from lt have len: "length d \<le> nat l - n" by simp
      have t: "take (nat l - n) (d @ concat ds) = d @ take (nat l - n - length d) (concat ds)"
        using len by simp
      from \<open>d \<noteq> []\<close> a ne ih t show ?thesis
        by (simp add: Let_def case_prod_beta)
    qed
  qed
qed

lemma pipeline_within:
  "int (totalBytes st + length (concat cs)) \<le> limit \<Longrightarrow>
   \<exists>st' w'. pipeline e limit p fails cs st w
               = ((if fails then Some (ToolError ''stream error'') else None), st', w')
     \<and> totalBytes st' = totalBytes st + length (concat cs)
     \<and> AList.delete (fs_key e p) (files w') = AList.delete (fs_key e p) (files w)
     \<and> events w' = events w @ map (\<lambda>c. StreamWrite p (length c)) cs
     \<and> logs w' = logs w \<and> uuidCount w' = uuidCount w \<and> today w' = today w"
proof (induction cs arbitrary: st w)
  case Nil
  then show ?case by simp
next
  case (Cons c cs)
  obtain r st1 where t: "tapTransform limit st c = (r, st1)" by (cases "tapTransform limit st c")
  have tot: "totalBytes st1 = totalBytes st + length c"
    using tapTransform_total [of limit st c] t by simp
  from Cons.prems have le: "\<not> int (totalBytes st + length c) > limit" by simp
  have r: "r = Inr c"
    using tapTransform_Inl [of limit st c] t le by simp
  from Cons.prems tot have "int (totalBytes st1 + length (concat cs)) \<le> limit" by (simp add: add.assoc)
  from Cons.IH [OF this, of "fs_streamWrite e p c w"] t r tot
  show ?case by (auto simp: fs_streamWrite_simps)
qed

lemma busboy_file_over:
  assumes "hl < int (length (concat (fp_data part)))" "0 \<le> hl"
  shows "st_limit (busboy_file hl part)"
    and "concat (st_chunks (busboy_file hl part)) = take (nat hl) (concat (fp_data part))"
    and "st_error (busboy_file hl part) = fp_broken part"
  using busboy_cut_over [of 0 hl "fp_data part"] assms
  by (simp_all add: busboy_file_def case_prod_beta)

lemma bufferUpload_limit:
  assumes lim: "st_limit s" and ok: "\<not> st_error s"
      and fit: "int (length (concat (st_chunks s))) \<le> limit"
  shows "\<exists>w'. bufferUpload e w s filename limit
            = (Inl (PayloadTooLarge ''File exceeds allowed size''), w')
        \<and> files w' = AList.delete (fs_key e (posix_join [cfg_tmpDir (config e), randomUUID e (uuidCount w) @ ''.tmp''])) (files w)
        \<and> events w' = events w @ CreateWriteStream (posix_join [cfg_tmpDir (config e), randomUUID e (uuidCount w) @ ''.tmp''])
             # map (\<lambda>c. StreamWrite (posix_join [cfg_tmpDir (config e), randomUUID e (uuidCount w) @ ''.tmp'']) (length c)) (st_chunks s)
             @ [Unlink (posix_join [cfg_tmpDir (config e), randomUUID e (uuidCount w) @ ''.tmp''])]
        \<and> uuidCount w' = Suc (uuidCount w) \<and> today w' = today w"
proof -
  define tmpPath where "tmpPath = posix_join [cfg_tmpDir (config e), randomUUID e (uuidCount w) @ ''.tmp'']"
  define st0 where "st0 = \<lparr>sniffChunks = [], sniffBytes = 0, totalBytes = 0\<rparr>"
  define w3 where "w3 = logger ''upload.limit.busboy'' [] (logger ''upload.stream.start'' [randomUUID e (uuidCount w) @ ''.tmp'', filename]
                              (fs_createWriteStream e tmpPath (w\<lparr>uuidCount := Suc (uuidCount w)\<rparr>)))"
  have "int (totalBytes st0 + length (concat (st_chunks s))) \<le> limit"
    using fit by (simp add: st0_def)
  from pipeline_within [OF this, of e tmpPath "st_error s" w3] ok
  obtain st' w' where p: "pipeline e limit tmpPath (st_error s) (st_chunks s) st0 w3 = (None, st', w')"
    and f: "AList.delete (fs_key e tmpPath) (files w') = AList.delete (fs_key e tmpPath) (files w3)"
    and ev: "events w' = events w3 @ map (\<lambda>c. StreamWrite tmpPath (length c)) (st_chunks s)"
    and u: "uuidCount w' = uuidCount w3" and d: "today w' = today w3"
    by auto
  have bu: "bufferUpload e w s filename limit
      = (Inl (PayloadTooLarge ''File exceeds allowed size''),
         fs_unlink e tmpPath (logger ''upload.stream.completed'' [randomUUID e (uuidCount w) @ ''.tmp''] w'))"
    using p lim unfolding w3_def tmpPath_def st0_def
    by (simp add: bufferUpload_def Let_def)
  have f3: "AList.delete (fs_key e tmpPath) (files w3) = AList.delete (fs_key e tmpPath) (files w)"
    by (simp add: w3_def delete_update_same)
  have e3: "events w3 = events w @ [CreateWriteStream tmpPath]" by (simp add: w3_def)
  have u3: "uuidCount w3 = Suc (uuidCount w)" "today w3 = today w" by (simp_all add: w3_def)
  show ?thesis
    unfolding tmpPath_def [symmetric] bu using f f3 ev e3 u d u3 by simp
qed


lemma handleUpload_single:
  assumes "rq_form_error rq = None" and "rq_parts rq = part # parts" and "rq_error rq = None"
      and "processIncomingFile e (logger ''upload.request.received'' [] w)
             (busboy_file (hardLimit e token) part) (fp_filename part) token (hardLimit e token)
           = (Inl err, w')"
  shows "handleUpload e w rq token = (Some (Inl err), logger ''upload.request.failed'' [] w')"
  using assms
  by (simp add: handleUpload_def Let_def busboy_def dispatch_def onFile_def onSettled_def
      onFinish_def settle_def)

text \<open>
  Claim C3. The parser cuts a file part at the byte ceiling
  \<open>min(maxUploadBytes, maxSize ?? maxUploadBytes)\<close>, which \<open>handleUpload\<close> gives it
  as its \<open>fileSize\<close> limit. So for a part that arrives whole and holds more bytes than
  a ceiling that is not negative, the stream handed to \<open>processIncomingFile\<close> carries
  exactly the first \<open>limit\<close> bytes and the \<open>limit\<close> mark: these bytes and no others
  are streamed to the temp file, the upload is rejected with the payload-too-large error
  once the cut stream has ended, the temp file is gone afterwards and every other file is
  as before, so no original was stored. The request as a whole is rejected with the same
  error.
\<close>

theorem upload_oversize:
  assumes over: "hardLimit e token < int (length (concat (fp_data part)))"
      and nonneg: "0 \<le> hardLimit e token"
      and whole: "\<not> fp_broken part"
  shows "(let limit = hardLimit e token;
              file = busboy_file limit part;
              tmpPath = posix_join [cfg_tmpDir (config e), randomUUID e (uuidCount w) @ ''.tmp''];
              r = processIncomingFile e w file (fp_filename part) token limit;
              u = handleUpload e w \<lparr>rq_form_error = None, rq_parts = part # parts,
                                     rq_error = None, rq_tail_late = late\<rparr> token
          in st_limit file
             \<and> concat (st_chunks file) = take (nat limit) (concat (fp_data part))
             \<and> fst r = Inl (PayloadTooLarge ''File exceeds allowed size'')
             \<and> files (snd r) = AList.delete (fs_key e tmpPath) (files w)
             \<and> \<not> fs_exists e (snd r) tmpPath
             \<and> events (snd r) = events w @ CreateWriteStream tmpPath #
                   map (\<lambda>c. StreamWrite tmpPath (length c)) (st_chunks file) @ [Unlink tmpPath]
             \<and> fst u = Some (Inl (PayloadTooLarge ''File exceeds allowed size''))
             \<and> files (snd u) = AList.delete (fs_key e tmpPath) (files w)
             \<and> events (snd u) = events (snd r))"
proof -
  define limit where "limit = hardLimit e token"
  define fl where "fl = busboy_file limit part"
  define tmpPath where "tmpPath = posix_join [cfg_tmpDir (config e), randomUUID e (uuidCount w) @ ''.tmp'']"
  define w0 where "w0 = logger ''upload.request.received'' [] w"
  from over nonneg have o: "limit < int (length (concat (fp_data part)))" "0 \<le> limit"
    by (simp_all add: limit_def)
  note bf = busboy_file_over [OF o]
  have lim: "st_limit fl" and cut: "concat (st_chunks fl) = take (nat limit) (concat (fp_data part))"
    and ok: "\<not> st_error fl"
    using bf whole by (simp_all add: fl_def)
  have fit: "int (length (concat (st_chunks fl))) \<le> limit"
    using cut o by simp
  from bufferUpload_limit [OF lim ok fit, of e w "fp_filename part"]
  obtain w' where bu: "bufferUpload e w fl (fp_filename part) limit
            = (Inl (PayloadTooLarge ''File exceeds allowed size''), w')"
    and f: "files w' = AList.delete (fs_key e tmpPath) (files w)"
    and ev: "events w' = events w @ CreateWriteStream tmpPath
             # map (\<lambda>c. StreamWrite tmpPath (length c)) (st_chunks fl) @ [Unlink tmpPath]"
    unfolding tmpPath_def by blast
  have r: "processIncomingFile e w fl (fp_filename part) token limit
             = (Inl (PayloadTooLarge ''File exceeds allowed size''), w')"
    by (simp add: processIncomingFile_def bu)
  have t0: "posix_join [cfg_tmpDir (config e), randomUUID e (uuidCount w0) @ ''.tmp''] = tmpPath"
    by (simp add: w0_def tmpPath_def)
  from bufferUpload_limit [OF lim ok fit, of e w0 "fp_filename part"]
  obtain w'' where bu0: "bufferUpload e w0 fl (fp_filename part) limit
            = (Inl (PayloadTooLarge ''File exceeds allowed size''), w'')"
    and f0: "files w'' = AList.delete (fs_key e tmpPath) (files w0)"
    and ev0: "events w'' = events w0 @ CreateWriteStream tmpPath
             # map (\<lambda>c. StreamWrite tmpPath (length c)) (st_chunks fl) @ [Unlink tmpPath]"
    unfolding t0 by blast
  have r0: "processIncomingFile e w0 fl (fp_filename part) token limit
             = (Inl (PayloadTooLarge ''File exceeds allowed size''), w'')"
    by (simp add: processIncomingFile_def bu0)
  have u: "handleUpload e w \<lparr>rq_form_error = None, rq_parts = part # parts,
                               rq_error = None, rq_tail_late = late\<rparr> token
             = (Some (Inl (PayloadTooLarge ''File exceeds allowed size'')),
                logger ''upload.request.failed'' [] w'')"
    by (rule handleUpload_single [where part = part and parts = parts])
       (simp_all add: r0 [unfolded w0_def fl_def limit_def])
  show ?thesis
    unfolding Let_def limit_def [symmetric] fl_def [symmetric] tmpPath_def [symmetric] r u
    using lim cut f not_exists_after_delete [OF f] ev f0 ev0 by (simp add: w0_def)
qed


theorem upload_oversize_witness:
  "hardLimit ex_env ex_image_token < int (length (concat (fp_data ex_big_part)))
   \<and> 0 \<le> hardLimit ex_env ex_image_token
   \<and> \<not> fp_broken ex_big_part
   \<and> st_chunks (busboy_file (hardLimit ex_env ex_image_token) ex_big_part)
        = [[0xFF, 0xD8, 0xFF, 0xE0], replicate 10 0, [1, 1]]
   \<and> fst (handleUpload ex_env ex_world (ex_request ex_big_part) ex_image_token)
        = Some (Inl (PayloadTooLarge ''File exceeds allowed size''))
   \<and> files (snd (handleUpload ex_env ex_world (ex_request ex_big_part) ex_image_token)) = []
   \<and> events (snd (handleUpload ex_env ex_world (ex_request ex_big_part) ex_image_token))
        = [CreateWriteStream ''/data/storage/tmp/uuid-0.tmp'',
           StreamWrite ''/data/storage/tmp/uuid-0.tmp'' 4,
           StreamWrite ''/data/storage/tmp/uuid-0.tmp'' 10,
           StreamWrite ''/data/storage/tmp/uuid-0.tmp'' 2,
           Unlink ''/data/storage/tmp/uuid-0.tmp'']"
proof -
  have h1: "hardLimit ex_env ex_image_token < int (length (concat (fp_data ex_big_part)))" by code_simp
  have h2: "0 \<le> hardLimit ex_env ex_image_token" by code_simp
  have h3: "\<not> fp_broken ex_big_part" by (simp add: ex_big_part_def)
  have c: "st_chunks (busboy_file (hardLimit ex_env ex_image_token) ex_big_part)
        = [[0xFF, 0xD8, 0xFF, 0xE0], replicate 10 0, [1, 1]]"
    by code_simp
  have t: "posix_join [cfg_tmpDir (config ex_env), randomUUID ex_env (uuidCount ex_world) @ ''.tmp'']
             = ''/data/storage/tmp/uuid-0.tmp''"
    by code_simp
  have d: "AList.delete (fs_key ex_env ''/data/storage/tmp/uuid-0.tmp'') (files ex_world) = []"
    by code_simp
  have ev: "events ex_world = []" by (simp add: ex_world_def)
  have rq: "ex_request ex_big_part = \<lparr>rq_form_error = None, rq_parts = ex_big_part # [],
              rq_error = None, rq_tail_late = False\<rparr>"
    by (simp add: ex_request_def)
  from upload_oversize [OF h1 h2 h3, of ex_world "[]" False] h1 h2 h3
  show ?thesis unfolding rq Let_def t c d ev by simp
qed

text \<open>
  Without the two conditions the rejection is a different one. Under a ceiling below zero
  an empty body counts more bytes than the ceiling, and is rejected as an empty file; an
  oversize part inside which the body breaks off is rejected as an unreadable stream.
\<close>

theorem upload_oversize_fails_below_zero:
  "hardLimit ex_env (ex_image_token\<lparr>tok_maxSize := Some (- 5)\<rparr>)
     < int (length (concat (fp_data \<lparr>fp_filename = ''empty.jpg'', fp_data = [], fp_broken = False\<rparr>)))
   \<and> fst (handleUpload ex_env ex_world
            (ex_request \<lparr>fp_filename = ''empty.jpg'', fp_data = [], fp_broken = False\<rparr>)
            (ex_image_token\<lparr>tok_maxSize := Some (- 5)\<rparr>))
       = Some (Inl (BadRequest ''Uploaded file is empty''))
   \<and> hardLimit ex_env ex_image_token < int (length (concat (fp_data (ex_big_part\<lparr>fp_broken := True\<rparr>))))
   \<and> fst (processIncomingFile ex_env ex_world
            (busboy_file (hardLimit ex_env ex_image_token) (ex_big_part\<lparr>fp_broken := True\<rparr>))
            ''big.jpg'' ex_image_token (hardLimit ex_env ex_image_token))
       = Inl (BadRequest ''Failed to read upload stream'')"
  by code_simp

subsection \<open>The temp file on the rejected-type path\<close>

text \<open>
  Claim C2. The temp file is to be removed on every exit path of
  \<open>processIncomingFile\<close>. The path through \<open>assertMimeAllowed\<close> throws without
  removing it: for an image claim and a body that sniffs as \<open>image/gif\<close>, which the
  default allow-list does not contain, the upload is rejected and the temp file is still
  there with the uploaded bytes.
\<close>

theorem processIncomingFile_rejected_mime_keeps_tmp:
  "fst (processIncomingFile ex_env ex_world ex_gif_stream ''cat.gif'' ex_image_token
          (hardLimit ex_env ex_image_token))
     = Inl (UnsupportedMediaType ''MIME type image/gif not allowed for image'')
   \<and> fs_readFile ex_env
        (snd (processIncomingFile ex_env ex_world ex_gif_stream ''cat.gif'' ex_image_token
                (hardLimit ex_env ex_image_token)))
        ''/data/storage/tmp/uuid-0.tmp''
     = Some [0x47, 0x49, 0x46, 0x38, 0x39, 0x61]"
  by code_simp

subsection \<open>The duration ceiling of the video normalizer\<close>

lemma run_ffprobe_world:
  "run_ffprobe e w p = (Inr probe, w1) \<Longrightarrow> w1 = emit (Ffprobe p) w"
  by (auto simp: run_ffprobe_def Let_def split: option.splits)










lemma floor_half: "\<lfloor>1 / 2 :: rat\<rfloor> = 0"
  by (rule floor_unique) simp_all

lemma math_round_zero: "math_round (num_times (Num 0) 1000) = Num 0"
  by (simp add: floor_half)

text \<open>
  Claim C4. When the probed duration exceeds \<open>maxDurationSec\<close>, \<open>processVideo\<close> fails
  with the payload-too-large error straight after the probe: the only tool invocation is
  the \<open>ffprobe\<close> run, so no \<open>ffmpeg\<close> call is made, and no file is written, copied or
  removed.
\<close>

theorem processVideo_duration_exceeded:
  assumes "run_ffprobe e w (vi_tmpPath input) = (Inr probe, w1)"
      and "pr_durationSec probe = Some (Num d)"
      and "vi_maxDurationSec input = Num m"
      and "m < d"
  shows "fst (processVideo e w input) = Inl (PayloadTooLarge ''Video duration exceeds allowed'')
         \<and> files (snd (processVideo e w input)) = files w
         \<and> events (snd (processVideo e w input)) = events w @ [Ffprobe (vi_tmpPath input)]"
  using assms run_ffprobe_world [OF assms(1)]
  by (simp add: processVideo_def)

theorem processVideo_duration_exceeded_witness:
  "run_ffprobe ex_env ex_video_world (vi_tmpPath ex_video_input)
     = (Inr \<lparr>pr_durationSec = Some (Num 15), pr_width = Some 640, pr_height = Some 360\<rparr>,
        emit (Ffprobe ''/data/storage/tmp/up.tmp'') ex_video_world)
   \<and> vi_maxDurationSec ex_video_input = Num 10
   \<and> fst (processVideo ex_env ex_video_world ex_video_input)
        = Inl (PayloadTooLarge ''Video duration exceeds allowed'')
   \<and> files (snd (processVideo ex_env ex_video_world ex_video_input)) = files ex_video_world
   \<and> events (snd (processVideo ex_env ex_video_world ex_video_input)) = [Ffprobe ''/data/storage/tmp/up.tmp'']"
proof -
  have h1: "run_ffprobe ex_env ex_video_world (vi_tmpPath ex_video_input)
     = (Inr \<lparr>pr_durationSec = Some (Num 15), pr_width = Some 640, pr_height = Some 360\<rparr>,
        emit (Ffprobe ''/data/storage/tmp/up.tmp'') ex_video_world)"
    by code_simp
  have h2: "pr_durationSec \<lparr>pr_durationSec = Some (Num 15), pr_width = Some 640, pr_height = Some 360\<rparr> = Some (Num 15)"
    by simp
  have h3: "vi_maxDurationSec ex_video_input = Num 10" by (simp add: ex_video_input_def)
  have h4: "(10::rat) < 15" by simp
  have p: "vi_tmpPath ex_video_input = ''/data/storage/tmp/up.tmp''" by (simp add: ex_video_input_def)
  have ev: "events ex_video_world = []" by (simp add: ex_video_world_def ex_world_def)
  from processVideo_duration_exceeded [OF h1 h2 h3 h4] h1 h3 show ?thesis
    by (simp add: p ev)
qed

















subsection \<open>Sniffing\<close>

lemma tapTransform_sniff:
  assumes "tap_inv st"
  shows "tap_inv (snd (tapTransform limit st buf))"
    and "concat (sniffChunks (snd (tapTransform limit st buf)))
           = take SNIFF_LENGTH (concat (sniffChunks st) @ buf)"
  using assms by (auto simp: tapTransform_def Let_def tap_inv_def)

lemma pipeline_sniff:
  "tap_inv st \<Longrightarrow> pipeline e limit p fails cs st w = (None, st', w') \<Longrightarrow>
     concat (sniffChunks st') = take SNIFF_LENGTH (concat (sniffChunks st) @ concat cs)"
proof (induction cs arbitrary: st w)
  case Nil
  then show ?case by (auto simp: tap_inv_def split: if_splits)
next
  case (Cons c cs)
  obtain r st1 where t: "tapTransform limit st c = (r, st1)" by (cases "tapTransform limit st c")
  from tapTransform_sniff [OF Cons.prems(1), of limit c] t
  have inv1: "tap_inv st1"
    and sn1: "concat (sniffChunks st1) = take SNIFF_LENGTH (concat (sniffChunks st) @ c)" by simp_all
  from Cons.prems(2) t obtain b where r: "r = Inr b"
    and rest: "pipeline e limit p fails cs st1 (fs_streamWrite e p b w) = (None, st', w')"
    by (cases r) auto
  from Cons.IH [OF inv1 rest] sn1
  have "concat (sniffChunks st') = take SNIFF_LENGTH (take SNIFF_LENGTH (concat (sniffChunks st) @ c) @ concat cs)"
    by simp
  also have "\<dots> = take SNIFF_LENGTH ((concat (sniffChunks st) @ c) @ concat cs)"
    by (simp add: take_append min_def)
  finally show ?case by simp
qed

lemma bufferUpload_cases:
  obtains r st1 w4 where
    "bufferUpload e w s filename limit =
      (let tmpFile = randomUUID e (uuidCount w) @ ''.tmp'';
           tmpPath = posix_join [cfg_tmpDir (config e), tmpFile]
       in case r of
           Some err \<Rightarrow>
             (case err of
                   PayloadTooLarge m \<Rightarrow> (Inl err, fs_unlink e tmpPath w4)
                 | _ \<Rightarrow> (Inl (BadRequest ''Failed to read upload stream''),
                         logger ''upload.stream.error'' [] (fs_unlink e tmpPath w4)))
         | None \<Rightarrow>
             (if st_limit s then
                   (Inl (PayloadTooLarge ''File exceeds allowed size''),
                    fs_unlink e tmpPath (logger ''upload.stream.completed'' [tmpFile] w4))
                 else if totalBytes st1 = 0 then
                   (Inl (BadRequest ''Uploaded file is empty''),
                    logger ''upload.file.empty'' [] (fs_unlink e tmpPath (logger ''upload.stream.completed'' [tmpFile] w4)))
                 else (Inr (tmpPath, st1), logger ''upload.stream.completed'' [tmpFile] w4)))"
    "\<exists>w3. pipeline e limit (posix_join [cfg_tmpDir (config e), randomUUID e (uuidCount w) @ ''.tmp''])
        (st_error s) (st_chunks s) \<lparr>sniffChunks = [], sniffBytes = 0, totalBytes = 0\<rparr> w3 = (r, st1, w4)"
proof -
  define tmpPath where "tmpPath = posix_join [cfg_tmpDir (config e), randomUUID e (uuidCount w) @ ''.tmp'']"
  define w3 where "w3 = (if st_limit s
      then logger ''upload.limit.busboy'' []
             (logger ''upload.stream.start'' [randomUUID e (uuidCount w) @ ''.tmp'', filename]
               (fs_createWriteStream e tmpPath (w\<lparr>uuidCount := Suc (uuidCount w)\<rparr>)))
      else logger ''upload.stream.start'' [randomUUID e (uuidCount w) @ ''.tmp'', filename]
             (fs_createWriteStream e tmpPath (w\<lparr>uuidCount := Suc (uuidCount w)\<rparr>)))"
  obtain r st1 w4 where pl: "pipeline e limit tmpPath (st_error s) (st_chunks s)
        \<lparr>sniffChunks = [], sniffBytes = 0, totalBytes = 0\<rparr> w3 = (r, st1, w4)"
    by (cases "pipeline e limit tmpPath (st_error s) (st_chunks s)
        \<lparr>sniffChunks = [], sniffBytes = 0, totalBytes = 0\<rparr> w3")
  have pl': "\<exists>w3. pipeline e limit (posix_join [cfg_tmpDir (config e), randomUUID e (uuidCount w) @ ''.tmp''])
        (st_error s) (st_chunks s) \<lparr>sniffChunks = [], sniffBytes = 0, totalBytes = 0\<rparr> w3 = (r, st1, w4)"
    using pl unfolding tmpPath_def by blast
  from pl have eq: "bufferUpload e w s filename limit =
      (let tmpFile = randomUUID e (uuidCount w) @ ''.tmp'';
           tmpPath = posix_join [cfg_tmpDir (config e), tmpFile]
       in case r of
           Some err \<Rightarrow>
             (case err of
                   PayloadTooLarge m \<Rightarrow> (Inl err, fs_unlink e tmpPath w4)
                 | _ \<Rightarrow> (Inl (BadRequest ''Failed to read upload stream''),
                         logger ''upload.stream.error'' [] (fs_unlink e tmpPath w4)))
         | None \<Rightarrow>
             (if st_limit s then
                   (Inl (PayloadTooLarge ''File exceeds allowed size''),
                    fs_unlink e tmpPath (logger ''upload.stream.completed'' [tmpFile] w4))
                 else if totalBytes st1 = 0 then
                   (Inl (BadRequest ''Uploaded file is empty''),
                    logger ''upload.file.empty'' [] (fs_unlink e tmpPath (logger ''upload.stream.completed'' [tmpFile] w4)))
                 else (Inr (tmpPath, st1), logger ''upload.stream.completed'' [tmpFile] w4)))"
    unfolding w3_def tmpPath_def
    by (cases r) (simp_all add: bufferUpload_def Let_def split del: if_split)
  from eq pl' show thesis by (rule that)
qed

lemma bufferUpload_Inr:
  assumes "bufferUpload e w s filename limit = (Inr (p, st), w')"
  shows "p = posix_join [cfg_tmpDir (config e), randomUUID e (uuidCount w) @ ''.tmp'']"
    and "\<exists>w3 w4. pipeline e limit p (st_error s) (st_chunks s)
            \<lparr>sniffChunks = [], sniffBytes = 0, totalBytes = 0\<rparr> w3 = (None, st, w4)
          \<and> w' = logger ''upload.stream.completed'' [randomUUID e (uuidCount w) @ ''.tmp''] w4"
    and "\<not> st_limit s" and "totalBytes st \<noteq> 0"
proof -
  obtain r st1 w4 where bu: "bufferUpload e w s filename limit =
      (let tmpFile = randomUUID e (uuidCount w) @ ''.tmp'';
           tmpPath = posix_join [cfg_tmpDir (config e), tmpFile]
       in case r of
           Some err \<Rightarrow>
             (case err of
                   PayloadTooLarge m \<Rightarrow> (Inl err, fs_unlink e tmpPath w4)
                 | _ \<Rightarrow> (Inl (BadRequest ''Failed to read upload stream''),
                         logger ''upload.stream.error'' [] (fs_unlink e tmpPath w4)))
         | None \<Rightarrow>
             (if st_limit s then
                   (Inl (PayloadTooLarge ''File exceeds allowed size''),
                    fs_unlink e tmpPath (logger ''upload.stream.completed'' [tmpFile] w4))
                 else if totalBytes st1 = 0 then
                   (Inl (BadRequest ''Uploaded file is empty''),
                    logger ''upload.file.empty'' [] (fs_unlink e tmpPath (logger ''upload.stream.completed'' [tmpFile] w4)))
                 else (Inr (tmpPath, st1), logger ''upload.stream.completed'' [tmpFile] w4)))"
    and pl: "\<exists>w3. pipeline e limit (posix_join [cfg_tmpDir (config e), randomUUID e (uuidCount w) @ ''.tmp''])
        (st_error s) (st_chunks s) \<lparr>sniffChunks = [], sniffBytes = 0, totalBytes = 0\<rparr> w3 = (r, st1, w4)"
    by (rule bufferUpload_cases)
  have all: "r = None \<and> st1 = st \<and> p = posix_join [cfg_tmpDir (config e), randomUUID e (uuidCount w) @ ''.tmp'']
     \<and> \<not> st_limit s \<and> totalBytes st \<noteq> 0
     \<and> w' = logger ''upload.stream.completed'' [randomUUID e (uuidCount w) @ ''.tmp''] w4"
  proof (cases r)
    case None
    with assms bu show ?thesis by (auto simp: Let_def split: if_splits)
  next
    case (Some err)
    with assms bu show ?thesis by (cases err) (simp_all add: Let_def)
  qed
  then show "p = posix_join [cfg_tmpDir (config e), randomUUID e (uuidCount w) @ ''.tmp'']"
    and "\<not> st_limit s" and "totalBytes st \<noteq> 0" by simp_all
  from all pl show "\<exists>w3 w4. pipeline e limit p (st_error s) (st_chunks s)
            \<lparr>sniffChunks = [], sniffBytes = 0, totalBytes = 0\<rparr> w3 = (None, st, w4)
          \<and> w' = logger ''upload.stream.completed'' [randomUUID e (uuidCount w) @ ''.tmp''] w4"
    by auto
qed

lemma bufferUpload_sniff:
  assumes "bufferUpload e w s filename limit = (Inr (p, st), w')"
  shows "concat (sniffChunks st) = take SNIFF_LENGTH (concat (st_chunks s))"
proof -
  have inv0: "tap_inv \<lparr>sniffChunks = [], sniffBytes = 0, totalBytes = 0\<rparr>" by (simp add: tap_inv_def)
  from bufferUpload_Inr(2) [OF assms] obtain w3 w4 where
    "pipeline e limit p (st_error s) (st_chunks s)
            \<lparr>sniffChunks = [], sniffBytes = 0, totalBytes = 0\<rparr> w3 = (None, st, w4)" by blast
  from pipeline_sniff [OF inv0 this] show ?thesis by simp
qed

lemma detectType_decision:
  "fst (detectType e token p st w) = typeDecision e (tok_kind token) (concat (sniffChunks st))"
  by (auto simp: detectType_def typeDecision_def assertMimeAllowed_def allowedMime_def Let_def
      split: option.splits)

text \<open>
  Claim C5. The detected type and the allow-list decision depend only on the first
  \<open>SNIFF_LENGTH\<close> bytes of the body and on the kind of the claim. For two uploads
  (any file names, any worlds, any byte ceilings) that both pass the streaming stage,
  whose bodies agree on their first \<open>SNIFF_LENGTH\<close> bytes and whose claims have the same
  kind, the sniffing stage returns the same result: the same error, or the same detected
  extension and MIME type. That result is the type decision of the leading bytes, and it
  is the stage of \<open>processIncomingFile\<close> that decides whether the normalizer runs. The
  file name is passed to the log only, and the declared content type is not passed at all.
\<close>

theorem detection_depends_on_prefix_and_kind:
  assumes "bufferUpload e w1 s1 f1 l1 = (Inr (p1, st1), w1')"
      and "bufferUpload e w2 s2 f2 l2 = (Inr (p2, st2), w2')"
      and "take SNIFF_LENGTH (concat (st_chunks s1)) = take SNIFF_LENGTH (concat (st_chunks s2))"
      and "tok_kind t1 = tok_kind t2"
  shows "fst (detectType e t1 p1 st1 w1') = fst (detectType e t2 p2 st2 w2')
       \<and> fst (detectType e t1 p1 st1 w1')
           = typeDecision e (tok_kind t1) (take SNIFF_LENGTH (concat (st_chunks s1)))
       \<and> processIncomingFile e w1 s1 f1 t1 l1
           = bindE (detectType e t1 p1 st1 w1')
               (\<lambda>(ext, mime) w. normalizeUpload e t1 p1 ext mime w)"
  using assms bufferUpload_sniff [OF assms(1)] bufferUpload_sniff [OF assms(2)]
  by (simp add: detectType_decision processIncomingFile_def)

lemma not_isl_result: "\<not> isl (fst m) \<Longrightarrow> \<exists>x w. m = (Inr x, w)"
  by (cases m; cases "fst m") auto

theorem detection_depends_on_prefix_and_kind_witness:
  "\<exists>p1 st1 w1 p2 st2 w2.
     bufferUpload ex_env ex_world ex_jpeg_stream ''cat.png'' 16 = (Inr (p1, st1), w1)
   \<and> bufferUpload ex_env ex_world ex_jpeg_stream ''holiday.jpg'' 1000 = (Inr (p2, st2), w2)
   \<and> fst (detectType ex_env ex_image_token p1 st1 w1) = fst (detectType ex_env ex_image_token p2 st2 w2)
   \<and> fst (detectType ex_env ex_image_token p1 st1 w1) = Inr (''jpg'', ''image/jpeg'')"
proof -
  have "\<not> isl (fst (bufferUpload ex_env ex_world ex_jpeg_stream ''cat.png'' 16))" by code_simp
  then obtain x1 w1 where "bufferUpload ex_env ex_world ex_jpeg_stream ''cat.png'' 16 = (Inr x1, w1)"
    using not_isl_result by blast
  then obtain p1 st1 where b1: "bufferUpload ex_env ex_world ex_jpeg_stream ''cat.png'' 16 = (Inr (p1, st1), w1)"
    by (cases x1) simp
  have "\<not> isl (fst (bufferUpload ex_env ex_world ex_jpeg_stream ''holiday.jpg'' 1000))" by code_simp
  then obtain x2 w2 where "bufferUpload ex_env ex_world ex_jpeg_stream ''holiday.jpg'' 1000 = (Inr x2, w2)"
    using not_isl_result by blast
  then obtain p2 st2 where b2: "bufferUpload ex_env ex_world ex_jpeg_stream ''holiday.jpg'' 1000 = (Inr (p2, st2), w2)"
    by (cases x2) simp
  have d: "typeDecision ex_env (tok_kind ex_image_token) (take SNIFF_LENGTH (concat (st_chunks ex_jpeg_stream)))
             = Inr (''jpg'', ''image/jpeg'')"
    by code_simp
  from detection_depends_on_prefix_and_kind [OF b1 b2 refl refl, of ex_image_token] b1 b2 d
  show ?thesis by auto
qed

subsection \<open>Paths: splitting, joining, normalizing, resolving\<close>

lemma split_sep_nonempty [simp]: "split_sep s \<noteq> []"
  by (induction s) (auto split: list.splits)

lemma split_sep_noslash: "CHR ''/'' \<notin> set s \<Longrightarrow> split_sep s = [s]"
  by (induction s) auto

lemma split_sep_append: "split_sep (a @ CHR ''/'' # b) = split_sep a @ split_sep b"
proof (induction a)
  case Nil
  show ?case by (cases "split_sep b") simp_all
next
  case (Cons c a)
  show ?case
  proof (cases "c = CHR ''/''")
    case True
    with Cons show ?thesis by simp
  next
    case False
    obtain s ss where sa: "split_sep a = s # ss" by (cases "split_sep a") simp_all
    with Cons False show ?thesis by simp
  qed
qed

lemma split_sep_segments: "s \<in> set (split_sep p) \<Longrightarrow> CHR ''/'' \<notin> set s"
proof (induction p arbitrary: s)
  case Nil
  then show ?case by simp
next
  case (Cons c p)
  obtain t ts where sp: "split_sep p = t # ts" by (cases "split_sep p") simp_all
  from Cons sp show ?case by (auto split: if_splits)
qed

lemma join_sep_Cons: "ss \<noteq> [] \<Longrightarrow> join_sep (s # ss) = s @ CHR ''/'' # join_sep ss"
  by (cases ss) simp_all

lemma join_sep_append:
  "xs \<noteq> [] \<Longrightarrow> ys \<noteq> [] \<Longrightarrow> join_sep (xs @ ys) = join_sep xs @ CHR ''/'' # join_sep ys"
  by (induction xs rule: join_sep.induct) (simp_all add: join_sep_Cons)

lemma join_split: "join_sep (split_sep s) = s"
proof (induction s)
  case Nil
  show ?case by simp
next
  case (Cons c s)
  obtain t ts where sp: "split_sep s = t # ts" by (cases "split_sep s") simp_all
  with Cons show ?case by (cases ts) (auto simp: join_sep_Cons)
qed

lemma split_join:
  "segs \<noteq> [] \<Longrightarrow> \<forall>s\<in>set segs. CHR ''/'' \<notin> set s \<Longrightarrow> split_sep (join_sep segs) = segs"
proof (induction segs rule: join_sep.induct)
  case 1
  then show ?case by simp
next
  case (2 s)
  then show ?case by (simp add: split_sep_noslash)
next
  case (3 s t ss)
  then show ?case by (simp add: split_sep_append split_sep_noslash)
qed

lemma split_sep_concat:
  "parts \<noteq> [] \<Longrightarrow> split_sep (join_sep parts) = concat (map split_sep parts)"
  by (induction parts rule: join_sep.induct) (simp_all add: split_sep_append)

lemma join_sep_eq_Nil: "\<forall>s\<in>set segs. s \<noteq> [] \<Longrightarrow> join_sep segs = [] \<longleftrightarrow> segs = []"
  by (induction segs rule: join_sep.induct) simp_all

lemma last_join_sep: "segs \<noteq> [] \<Longrightarrow> last segs \<noteq> [] \<Longrightarrow> last (join_sep segs) = last (last segs)"
  by (induction segs rule: join_sep.induct) (auto simp: join_sep_Cons)

lemma hd_join_sep: "segs \<noteq> [] \<Longrightarrow> hd segs \<noteq> [] \<Longrightarrow> hd (join_sep segs) = hd (hd segs)"
  by (cases segs rule: join_sep.cases) auto

lemma foldl_step_proper:
  "\<forall>s\<in>set segs. proper s \<Longrightarrow> foldl (normalize_step b) acc segs = acc @ segs"
  by (induction segs arbitrary: acc) (auto simp: normalize_step_def proper_def)

lemma normalize_step_skip [simp]:
  "normalize_step b acc [] = acc" "normalize_step b acc ''.'' = acc"
  by (simp_all add: normalize_step_def)

lemma normalize_step_canon:
  "canon acc \<Longrightarrow> CHR ''/'' \<notin> set seg \<Longrightarrow> canon (normalize_step b acc seg)"
  by (auto simp: normalize_step_def canon_def dest: in_set_butlastD)

lemma foldl_step_canon:
  "canon acc \<Longrightarrow> \<forall>s\<in>set segs. CHR ''/'' \<notin> set s \<Longrightarrow> canon (foldl (normalize_step b) acc segs)"
  by (induction segs arbitrary: acc) (simp_all add: normalize_step_canon)

lemma normalize_step_False_proper:
  "\<forall>s\<in>set acc. proper s \<Longrightarrow> CHR ''/'' \<notin> set seg \<Longrightarrow> \<forall>s\<in>set (normalize_step False acc seg). proper s"
  by (auto simp: normalize_step_def proper_def dest: in_set_butlastD)

lemma foldl_step_False_proper:
  "\<forall>s\<in>set acc. proper s \<Longrightarrow> \<forall>s\<in>set segs. CHR ''/'' \<notin> set s \<Longrightarrow>
     \<forall>s\<in>set (foldl (normalize_step False) acc segs). proper s"
proof (induction segs arbitrary: acc)
  case Nil
  then show ?case by simp
next
  case (Cons x xs)
  from Cons.prems have "\<forall>s\<in>set (normalize_step False acc x). proper s"
    by (intro normalize_step_False_proper) simp_all
  from Cons.IH [OF this] Cons.prems(2) show ?case by simp
qed

lemma resolve_segs_proper: "\<forall>s\<in>set (resolve_segs wd p). proper s"
  unfolding resolve_segs_def normalize_segs_def
  by (rule foldl_step_False_proper) (auto dest: split_sep_segments)

text \<open>Resolving a normalized relative path is resolving the path.\<close>

lemma foldl_step_sim:
  assumes "\<forall>s\<in>set xs. CHR ''/'' \<notin> set s"
  shows "foldl (normalize_step False) acc (foldl (normalize_step True) [] xs)
           = foldl (normalize_step False) acc xs"
  using assms
proof (induction xs rule: rev_induct)
  case Nil
  show ?case by simp
next
  case (snoc x xs)
  let ?M = "foldl (normalize_step True) [] xs"
  let ?R = "foldl (normalize_step False) acc xs"
  from snoc have ih: "foldl (normalize_step False) acc ?M = ?R" by simp
  have cm: "canon ?M" using snoc.prems by (intro foldl_step_canon) (simp_all add: canon_def)
  show ?case
  proof (cases "x = [] \<or> x = ''.''")
    case True
    then show ?thesis using ih by auto
  next
    case False
    note nskip = this
    show ?thesis
    proof (cases "x = ''..''")
      case False
      with nskip have "normalize_step True ?M x = ?M @ [x]" "normalize_step False ?R x = ?R @ [x]"
        by (simp_all add: normalize_step_def)
      with ih show ?thesis by simp
    next
      case True
      show ?thesis
      proof (cases "?M \<noteq> [] \<and> last ?M \<noteq> ''..''")
        case False
        with True have "normalize_step True ?M x = ?M @ [''..'']" by (auto simp: normalize_step_def)
        with ih True show ?thesis by simp
      next
        case True
        then obtain M' s where M: "?M = M' @ [s]" and s: "s \<noteq> ''..''"
          by (metis append_butlast_last_id last_snoc)
        from cm M have sp: "s \<noteq> []" "s \<noteq> ''.''" by (simp_all add: canon_def)
        from M ih have R: "?R = foldl (normalize_step False) acc M' @ [s]"
          using s sp by (simp add: normalize_step_def)
        have "normalize_step True ?M x = M'" using \<open>x = ''..''\<close> M s by (simp add: normalize_step_def)
        moreover have "normalize_step False ?R x = foldl (normalize_step False) acc M'"
          using \<open>x = ''..''\<close> R s by (simp add: normalize_step_def)
        ultimately show ?thesis by simp
      qed
    qed
  qed
qed

lemma foldl_step_idem:
  "\<forall>s\<in>set acc. proper s \<Longrightarrow> foldl (normalize_step False) [] acc = acc"
  using foldl_step_proper [of acc False "[]"] by simp

lemma canon_join_eq_Nil: "canon N \<Longrightarrow> join_sep N = [] \<longleftrightarrow> N = []"
  by (rule join_sep_eq_Nil) (simp add: canon_def)

lemma canon_split_join: "canon N \<Longrightarrow> N \<noteq> [] \<Longrightarrow> split_sep (join_sep N) = N"
  by (rule split_join) (simp_all add: canon_def)

lemma canon_not_abs: "canon N \<Longrightarrow> N \<noteq> [] \<Longrightarrow> \<not> isAbsolute (join_sep N @ t)"
proof -
  assume c: "canon N" and n: "N \<noteq> []"
  then have h: "hd N \<noteq> []" "CHR ''/'' \<notin> set (hd N)" by (simp_all add: canon_def)
  with n have "join_sep N \<noteq> []" using c canon_join_eq_Nil by blast
  moreover have "hd (join_sep N) = hd (hd N)" using n h by (simp add: hd_join_sep)
  moreover have "hd (hd N) \<noteq> CHR ''/''" using h by (cases "hd N") auto
  ultimately show ?thesis by (cases "join_sep N") (simp_all add: isAbsolute_def)
qed

lemma normalize_segs_canon: "canon (normalize_segs b (split_sep p))"
  unfolding normalize_segs_def
  by (rule foldl_step_canon) (auto simp: canon_def dest: split_sep_segments)

lemma proper_imp_canon: "\<forall>s\<in>set N. proper s \<Longrightarrow> canon N"
  by (simp add: canon_def proper_def)

lemma foldl_step_skip_tail [simp]:
  "foldl (normalize_step b) acc (xs @ [[]]) = foldl (normalize_step b) acc xs"
  by simp

lemma resolve_rel:
  "\<not> isAbsolute p \<Longrightarrow>
     resolve_segs wd p = foldl (normalize_step False) (resolve_segs wd []) (split_sep p)"
  by (simp add: resolve_segs_def normalize_segs_def split_sep_append isAbsolute_def)

lemma resolve_abs:
  "isAbsolute p \<Longrightarrow> resolve_segs wd p = foldl (normalize_step False) [] (split_sep p)"
  by (simp add: resolve_segs_def normalize_segs_def)

lemma split_trailing: "split_sep (q @ ''/'') = split_sep q @ [[]]"
  using split_sep_append [of q "[]"] by simp

lemma split_leading: "split_sep (CHR ''/'' # q) = [] # split_sep q"
  by simp

lemma resolve_normalize: "resolve_segs wd (posix_normalize p) = resolve_segs wd p"
proof (cases "p = []")
  case True
  have "\<not> isAbsolute ''.''" by (simp add: isAbsolute_def)
  from resolve_rel [OF this, of wd] True show ?thesis by (simp add: posix_normalize_def)
next
  case False
  note pne = this
  show ?thesis
  proof (cases "isAbsolute p")
    case True
    define N where "N = normalize_segs False (split_sep p)"
    have cN: "canon N" unfolding N_def by (rule normalize_segs_canon)
    have pN: "\<forall>s\<in>set N. proper s" unfolding N_def normalize_segs_def
      by (rule foldl_step_False_proper) (auto dest: split_sep_segments)
    have rp: "resolve_segs wd p = N" using True by (simp add: resolve_abs N_def normalize_segs_def)
    show ?thesis
    proof (cases "N = []")
      case True
      then have "posix_normalize p = ''/''"
        using pne \<open>isAbsolute p\<close> by (simp add: posix_normalize_def normalizeString_def N_def [symmetric] Let_def)
      then show ?thesis using rp True by (simp add: resolve_segs_def normalize_segs_def isAbsolute_def)
    next
      case False
      then have q: "join_sep N \<noteq> []" using cN canon_join_eq_Nil by blast
      define t where "t = (if last p = CHR ''/'' then ''/'' else [])"
      have np: "posix_normalize p = CHR ''/'' # join_sep N @ t"
        using pne \<open>isAbsolute p\<close> q
        by (simp add: posix_normalize_def normalizeString_def N_def [symmetric] Let_def t_def)
      have sp: "split_sep (CHR ''/'' # join_sep N @ t) = [] # N @ (if t = [] then [] else [[]])"
        using canon_split_join [OF cN False] by (auto simp: t_def split_trailing)
      have "resolve_segs wd (posix_normalize p) = foldl (normalize_step False) [] ([] # N @ (if t = [] then [] else [[]]))"
        unfolding np using sp by (simp add: resolve_segs_def normalize_segs_def isAbsolute_def)
      also have "\<dots> = foldl (normalize_step False) [] N" by simp
      also have "\<dots> = N" using pN by (rule foldl_step_idem)
      finally show ?thesis using rp by simp
    qed
  next
    case False
    define N where "N = normalize_segs True (split_sep p)"
    define C where "C = resolve_segs wd []"
    have cN: "canon N" unfolding N_def by (rule normalize_segs_canon)
    have "\<forall>s\<in>set (split_sep p). CHR ''/'' \<notin> set s" by (auto dest: split_sep_segments)
    from foldl_step_sim [OF this, of C]
    have rp: "resolve_segs wd p = foldl (normalize_step False) C N"
      using resolve_rel [OF False, of wd] by (simp add: C_def N_def normalize_segs_def)
    show ?thesis
    proof (cases "N = []")
      case True
      then have "posix_normalize p = ''./'' \<or> posix_normalize p = ''.''"
        using pne False by (simp add: posix_normalize_def normalizeString_def N_def [symmetric] Let_def)
      moreover have "\<not> isAbsolute ''./''" "\<not> isAbsolute ''.''" by (simp_all add: isAbsolute_def)
      ultimately have "resolve_segs wd (posix_normalize p) = C"
        using resolve_rel [of "''./''" wd] resolve_rel [of "''.''" wd] by (auto simp: C_def)
      with rp True show ?thesis by simp
    next
      case nN: False
      then have q: "join_sep N \<noteq> []" using cN canon_join_eq_Nil by blast
      define t where "t = (if last p = CHR ''/'' then ''/'' else [])"
      have np: "posix_normalize p = join_sep N @ t"
        using pne False q
        by (simp add: posix_normalize_def normalizeString_def N_def [symmetric] Let_def t_def)
      have na: "\<not> isAbsolute (join_sep N @ t)" using cN nN by (rule canon_not_abs)
      have sp: "split_sep (join_sep N @ t) = N @ (if t = [] then [] else [[]])"
        using canon_split_join [OF cN nN] by (auto simp: t_def split_trailing)
      have "resolve_segs wd (posix_normalize p) = foldl (normalize_step False) C (N @ (if t = [] then [] else [[]]))"
        unfolding np using resolve_rel [OF na, of wd] sp by (simp add: C_def)
      also have "\<dots> = foldl (normalize_step False) C N" by simp
      finally show ?thesis using rp by simp
    qed
  qed
qed

lemma foldl_step_filter_empty:
  "foldl (normalize_step b) acc (concat (map split_sep (filter (\<lambda>a. a \<noteq> []) args)))
     = foldl (normalize_step b) acc (concat (map split_sep args))"
  by (induction args arbitrary: acc) simp_all

lemma isAbsolute_join:
  "parts \<noteq> [] \<Longrightarrow> hd parts \<noteq> [] \<Longrightarrow> isAbsolute (join_sep parts) = isAbsolute (hd parts)"
  by (cases parts rule: join_sep.cases) (auto simp: isAbsolute_def split: list.splits)

lemma resolve_join_parts_rel:
  assumes "parts \<noteq> []" "hd parts \<noteq> []" "\<not> isAbsolute (hd parts)"
  shows "resolve_segs wd (join_sep parts)
           = foldl (normalize_step False) (resolve_segs wd []) (concat (map split_sep parts))"
proof -
  have "\<not> isAbsolute (join_sep parts)" using assms by (simp add: isAbsolute_join)
  from resolve_rel [OF this] assms(1) show ?thesis by (simp add: split_sep_concat)
qed

lemma resolve_join_parts_hd:
  assumes "d \<noteq> []"
  shows "resolve_segs wd (join_sep (d # ps))
           = foldl (normalize_step False) (resolve_segs wd d) (concat (map split_sep ps))"
proof (cases "isAbsolute d")
  case True
  then have "isAbsolute (join_sep (d # ps))" using assms isAbsolute_join [of "d # ps"] by simp
  from resolve_abs [OF this] resolve_abs [OF True] show ?thesis
    by (simp add: split_sep_concat)
next
  case False
  then have "\<not> isAbsolute (join_sep (d # ps))" using assms isAbsolute_join [of "d # ps"] by simp
  from resolve_rel [OF this] resolve_rel [OF False] show ?thesis
    by (simp add: split_sep_concat)
qed

lemma resolve_join:
  assumes "\<forall>a\<in>set args. \<not> isAbsolute a"
  shows "resolve_segs wd (posix_join (d # args))
           = foldl (normalize_step False) (resolve_segs wd d) (concat (map split_sep args))"
proof (cases "d = []")
  case False
  then have "posix_join (d # args) = posix_normalize (join_sep (d # filter (\<lambda>a. a \<noteq> []) args))"
    by (simp add: posix_join_def)
  then show ?thesis
    using resolve_join_parts_hd [OF False, of wd "filter (\<lambda>a. a \<noteq> []) args"]
    by (simp add: resolve_normalize foldl_step_filter_empty)
next
  case True
  define parts where "parts = filter (\<lambda>a. a \<noteq> []) args"
  show ?thesis
  proof (cases "parts = []")
    case pe: True
    then have "posix_join (d # args) = ''.''" using True by (simp add: posix_join_def parts_def)
    moreover have "resolve_segs wd ''.'' = resolve_segs wd []"
      using resolve_rel [of "''.''" wd] by (simp add: isAbsolute_def)
    moreover have "foldl (normalize_step False) (resolve_segs wd []) (concat (map split_sep args))
        = resolve_segs wd []"
      using foldl_step_filter_empty [of False "resolve_segs wd []" args] pe by (simp add: parts_def)
    ultimately show ?thesis using True by simp
  next
    case pne: False
    then have hdin: "hd parts \<in> set parts" by simp
    then have h1: "hd parts \<noteq> []" and h2: "\<not> isAbsolute (hd parts)"
      using assms by (auto simp: parts_def)
    have "posix_join (d # args) = posix_normalize (join_sep parts)"
      using True pne by (simp add: posix_join_def parts_def)
    then show ?thesis
      using resolve_join_parts_rel [OF pne h1 h2, of wd] True
        foldl_step_filter_empty [of False "resolve_segs wd []" args]
      by (simp add: resolve_normalize parts_def)
  qed
qed

text \<open>Joining a directory with a relative path made of proper segments.\<close>

lemma proper_not_abs: "\<forall>s\<in>set rel. proper s \<Longrightarrow> \<not> isAbsolute (join_sep rel)"
proof (cases "rel = []")
  case True
  then show ?thesis by (simp add: isAbsolute_def)
next
  case False
  assume p: "\<forall>s\<in>set rel. proper s"
  then have "canon rel" by (rule proper_imp_canon)
  from canon_not_abs [OF this False, of "[]"] show ?thesis by simp
qed

lemma proper_split_join: "\<forall>s\<in>set rel. proper s \<Longrightarrow> rel \<noteq> [] \<Longrightarrow> split_sep (join_sep rel) = rel"
  by (rule split_join) (simp_all add: proper_def)

lemma resolve_join2:
  assumes "\<forall>s\<in>set rel. proper s" "rel \<noteq> []"
  shows "resolve_segs wd (posix_join [d, join_sep rel]) = resolve_segs wd d @ rel"
proof -
  have "\<forall>a\<in>set [join_sep rel]. \<not> isAbsolute a" using proper_not_abs [OF assms(1)] by simp
  from resolve_join [OF this, of wd d] show ?thesis
    using assms by (simp add: proper_split_join foldl_step_proper)
qed

lemma posix_join_proper:
  assumes "\<forall>s\<in>set rel. proper s" "rel \<noteq> []"
  shows "posix_join [join_sep rel] = join_sep rel"
proof -
  have c: "canon rel" using assms(1) by (rule proper_imp_canon)
  have ne: "join_sep rel \<noteq> []" using c assms(2) canon_join_eq_Nil by blast
  have na: "\<not> isAbsolute (join_sep rel)" using assms(1) by (rule proper_not_abs)
  have l: "last (join_sep rel) \<noteq> CHR ''/''"
  proof -
    have lr: "last rel \<noteq> []" "CHR ''/'' \<notin> set (last rel)" using assms by (simp_all add: proper_def)
    then have "last (join_sep rel) = last (last rel)" using assms(2) by (simp add: last_join_sep)
    moreover have "last (last rel) \<in> set (last rel)" using lr by simp
    ultimately show ?thesis using lr by metis
  qed
  have n: "normalize_segs True (split_sep (join_sep rel)) = rel"
    using assms by (simp add: proper_split_join normalize_segs_def foldl_step_proper)
  show ?thesis using ne na l n
    by (simp add: posix_join_def posix_normalize_def normalizeString_def Let_def)
qed

lemma posix_join_all_proper:
  assumes "\<forall>r\<in>set rels. r \<noteq> [] \<and> (\<forall>s\<in>set r. proper s)" "rels \<noteq> []"
  shows "posix_join (map join_sep rels) = join_sep (concat rels)"
proof -
  have ne: "\<forall>r\<in>set rels. join_sep r \<noteq> []"
    using assms(1) canon_join_eq_Nil proper_imp_canon by blast
  then have f: "filter (\<lambda>a. a \<noteq> []) (map join_sep rels) = map join_sep rels"
    by (induction rels) simp_all
  have j: "join_sep (map join_sep rels) = join_sep (concat rels)"
    using assms(1) ne
  proof (induction rels)
    case Nil
    then show ?case by simp
  next
    case (Cons r rs)
    show ?case
    proof (cases "rs = []")
      case True
      then show ?thesis by simp
    next
      case False
      with Cons have ih: "join_sep (map join_sep rs) = join_sep (concat rs)" by simp
      have "concat rs \<noteq> []" using False Cons.prems(1) by (cases rs) auto
      moreover have "r \<noteq> []" using Cons.prems(1) by simp
      ultimately show ?thesis using ih False by (simp add: join_sep_append join_sep_Cons)
    qed
  qed
  have pc: "\<forall>s\<in>set (concat rels). proper s" using assms(1) by auto
  have cne: "concat rels \<noteq> []" using assms by (cases rels) auto
  have "posix_join (map join_sep rels) = posix_join [join_sep (concat rels)]"
    using f j assms(2) ne cne pc canon_join_eq_Nil [OF proper_imp_canon [OF pc]]
    by (simp add: posix_join_def)
  with posix_join_proper [OF pc cne] show ?thesis by simp
qed

lemma common_prefix_len_append: "common_prefix_len R (R @ rel) = length R + common_prefix_len [] rel"
  by (induction R) simp_all

lemma posix_relative_under:
  assumes "resolve_segs wd to = resolve_segs wd from @ rel" "rel \<noteq> []"
  shows "posix_relative wd from to = join_sep rel"
proof -
  have "from \<noteq> to" using assms by auto
  moreover have "resolve_segs wd from \<noteq> resolve_segs wd to" using assms by simp
  ultimately show ?thesis using assms(1)
    by (simp add: posix_relative_def Let_def common_prefix_len_append)
qed

lemma takeWhile_rev_all: "\<forall>x\<in>set s. P x \<Longrightarrow> rev (takeWhile P (rev s)) = s"
proof -
  assume "\<forall>x\<in>set s. P x"
  then have "takeWhile P (rev s) = rev s" by simp
  then show ?thesis by (simp only: rev_rev_ident)
qed

lemma strip_trailing_id: "p \<noteq> [] \<Longrightarrow> last p \<noteq> CHR ''/'' \<Longrightarrow> strip_trailing_seps p = p"
  by (cases p rule: rev_cases) (simp_all add: strip_trailing_seps_def)

lemma proper_join_last:
  assumes "\<forall>s\<in>set rel. proper s" "rel \<noteq> []"
  shows "join_sep rel \<noteq> []" "last (join_sep rel) \<noteq> CHR ''/''"
proof -
  have c: "canon rel" using assms(1) by (rule proper_imp_canon)
  show "join_sep rel \<noteq> []" using c assms(2) canon_join_eq_Nil by blast
  have lr: "last rel \<noteq> []" "CHR ''/'' \<notin> set (last rel)" using assms by (simp_all add: proper_def)
  then have "last (join_sep rel) = last (last rel)" using assms(2) by (simp add: last_join_sep)
  moreover have "last (last rel) \<in> set (last rel)" using lr by simp
  ultimately show "last (join_sep rel) \<noteq> CHR ''/''" using lr by metis
qed

lemma join_sep_snoc: "xs \<noteq> [] \<Longrightarrow> join_sep (xs @ [x]) = join_sep xs @ CHR ''/'' # x"
  using join_sep_append [of xs "[x]"] by simp

lemma last_segment_join:
  assumes "\<forall>s\<in>set rel. proper s" "rel \<noteq> []"
  shows "last_segment (join_sep rel) = last rel"
proof -
  have st: "strip_trailing_seps (join_sep rel) = join_sep rel"
    using proper_join_last [OF assms] by (simp add: strip_trailing_id)
  have ns: "CHR ''/'' \<notin> set (last rel)" using assms by (simp add: proper_def)
  show ?thesis
  proof (cases "butlast rel = []")
    case True
    then have "rel = [last rel]" using assms(2) by (metis append_butlast_last_id append_Nil)
    then have "join_sep rel = last rel" by (metis join_sep.simps(2))
    moreover have "rev (takeWhile (\<lambda>c. c \<noteq> CHR ''/'') (rev (last rel))) = last rel"
      by (rule takeWhile_rev_all) (use ns in auto)
    ultimately show ?thesis using st by (simp add: last_segment_def)
  next
    case False
    have "rel = butlast rel @ [last rel]" using assms(2) by simp
    then have "join_sep rel = join_sep (butlast rel) @ CHR ''/'' # last rel"
      using join_sep_snoc [OF False, of "last rel"] by simp
    then have "rev (join_sep rel) = rev (last rel) @ CHR ''/'' # rev (join_sep (butlast rel))"
      by simp
    moreover have "takeWhile (\<lambda>c. c \<noteq> CHR ''/'') (rev (last rel) @ CHR ''/'' # rev (join_sep (butlast rel)))
        = rev (last rel) @ takeWhile (\<lambda>c. c \<noteq> CHR ''/'') (CHR ''/'' # rev (join_sep (butlast rel)))"
      by (rule takeWhile_append2) (use ns in auto)
    ultimately show ?thesis using st by (simp add: last_segment_def)
  qed
qed

lemma posix_dirname_join:
  assumes "\<forall>s\<in>set rel. proper s" "rel \<noteq> []"
  shows "posix_dirname (join_sep rel) = (if butlast rel = [] then ''.'' else join_sep (butlast rel))"
proof (cases "butlast rel = []")
  case True
  then have "rel = [last rel]" using assms(2) by (metis append_butlast_last_id append_Nil)
  then have j: "join_sep rel = last rel" by (metis join_sep.simps(2))
  have pl: "proper (last rel)" using assms by simp
  then obtain c r where cr: "last rel = c # r" by (cases "last rel") (simp_all add: proper_def)
  with pl have "c \<noteq> CHR ''/''" "CHR ''/'' \<notin> set r" by (auto simp: proper_def)
  moreover have "set (strip_trailing_seps r) \<subseteq> set r"
    unfolding strip_trailing_seps_def using set_dropWhileD by fastforce
  ultimately show ?thesis using True j cr by (auto simp: posix_dirname_def Let_def)
next
  case False
  define A where "A = join_sep (butlast rel)"
  define L where "L = last rel"
  have pb: "\<forall>s\<in>set (butlast rel). proper s" using assms(1) by (auto dest: in_set_butlastD)
  have "rel = butlast rel @ [L]" using assms(2) by (simp add: L_def)
  then have j: "join_sep rel = A @ CHR ''/'' # L"
    using join_sep_snoc [OF False, of L] by (simp add: A_def)
  have Lp: "L \<noteq> []" "CHR ''/'' \<notin> set L" using assms by (simp_all add: L_def proper_def)
  have "\<not> isAbsolute A" unfolding A_def using pb by (rule proper_not_abs)
  moreover have "A \<noteq> []" unfolding A_def using proper_join_last(1) [OF pb False] .
  ultimately obtain c a where A: "A = c # a" and c: "c \<noteq> CHR ''/''"
    by (cases A) (simp_all add: isAbsolute_def)
  define r where "r = a @ CHR ''/'' # L"
  have p: "join_sep rel = c # r" using j A by (simp add: r_def)
  have lr: "last r \<noteq> CHR ''/''" using Lp by (simp add: r_def) (metis last_in_set)
  have st: "strip_trailing_seps r = r" using lr by (intro strip_trailing_id) (simp_all add: r_def)
  have sl: "CHR ''/'' \<in> set r" by (simp add: r_def)
  have "dropWhile (\<lambda>x. x \<noteq> CHR ''/'') (rev r) = CHR ''/'' # rev a"
    using Lp by (auto simp: r_def dropWhile_append3)
  then have "c # rev (tl (dropWhile (\<lambda>x. x \<noteq> CHR ''/'') (rev r))) = A" using A by simp
  then show ?thesis using p st sl c False by (simp add: posix_dirname_def Let_def A_def)
qed

lemma extname_name:
  assumes "sha \<noteq> []" "safe_name sha" "safe_name ext"
  shows "(let b = sha @ ''.'' @ ext; e = rev (takeWhile (\<lambda>c. c \<noteq> CHR ''.'') (rev b))
          in if CHR ''.'' \<notin> set b \<or> length e + 1 = length b \<or> b = ''..'' then []
             else CHR ''.'' # e) = CHR ''.'' # ext"
proof -
  have "takeWhile (\<lambda>c. c \<noteq> CHR ''.'') (rev ext @ CHR ''.'' # rev sha)
      = rev ext @ takeWhile (\<lambda>c. c \<noteq> CHR ''.'') (CHR ''.'' # rev sha)"
    by (rule takeWhile_append2) (use assms(3) in \<open>auto simp: safe_name_def\<close>)
  then have "takeWhile (\<lambda>c. c \<noteq> CHR ''.'') (rev ext @ CHR ''.'' # rev sha) = rev ext"
    by simp
  moreover have "sha @ ''.'' @ ext \<noteq> ''..''"
  proof
    assume "sha @ ''.'' @ ext = ''..''"
    then have "hd (sha @ ''.'' @ ext) = CHR ''.''" by simp
    then have "hd sha = CHR ''.''" using assms(1) by simp
    then show False using assms(1,2) by (cases sha) (auto simp: safe_name_def)
  qed
  ultimately show ?thesis using assms(1) by (simp add: Let_def)
qed

lemma proper_name:
  assumes "sha \<noteq> []" "safe_name sha" "safe_name ext"
  shows "proper (sha @ ''.'' @ ext)"
proof -
  have "sha @ ''.'' @ ext \<noteq> ''.''" using assms(1) by (cases sha) simp_all
  moreover have "sha @ ''.'' @ ext \<noteq> ''..''"
  proof
    assume "sha @ ''.'' @ ext = ''..''"
    then have "hd (sha @ ''.'' @ ext) = CHR ''.''" by simp
    then have "hd sha = CHR ''.''" using assms(1) by simp
    then show False using assms(1,2) by (cases sha) (auto simp: safe_name_def)
  qed
  ultimately show ?thesis using assms by (simp add: proper_def safe_name_def)
qed

lemma posix_extname_join:
  assumes "\<forall>s\<in>set rel. proper s" "rel \<noteq> []" "last rel = sha @ ''.'' @ ext"
      and "sha \<noteq> []" "safe_name sha" "safe_name ext"
  shows "posix_extname (join_sep rel) = CHR ''.'' # ext"
  using extname_name [OF assms(4-6)] last_segment_join [OF assms(1,2)] assms(3)
  by (simp add: posix_extname_def)

lemma length_join_ge_last: "rel \<noteq> [] \<Longrightarrow> length (last rel) \<le> length (join_sep rel)"
  by (induction rel rule: join_sep.induct) auto

lemma posix_basename_join:
  assumes "\<forall>s\<in>set rel. proper s" "rel \<noteq> []" "last rel = sha @ ''.'' @ ext"
      and "sha \<noteq> []" "safe_name sha" "safe_name ext"
  shows "posix_basename (join_sep rel) (posix_extname (join_sep rel)) = sha"
proof -
  have b: "last_segment (join_sep rel) = sha @ ''.'' @ ext"
    using last_segment_join [OF assms(1,2)] assms(3) by simp
  have e: "posix_extname (join_sep rel) = CHR ''.'' # ext" using assms by (rule posix_extname_join)
  have len: "length (sha @ ''.'' @ ext) \<le> length (join_sep rel)"
    using length_join_ge_last [OF assms(2)] assms(3) by simp
  have ne: "CHR ''.'' # ext \<noteq> join_sep rel"
  proof
    assume "CHR ''.'' # ext = join_sep rel"
    then have "length (join_sep rel) = Suc (length ext)" by (metis length_Cons)
    with len assms(4) show False by (cases sha) simp_all
  qed
  show ?thesis using b e len ne assms(4) by (simp add: posix_basename_def Let_def)
qed

lemma digit_char_digit: "digit_char d \<in> set ''0123456789''"
  unfolding digit_char_def by (rule nth_mem) simp

lemma show_nat_digits: "show_nat n \<noteq> [] \<and> set (show_nat n) \<subseteq> set ''0123456789''"
proof (induction n rule: show_nat.induct)
  case (1 n)
  show ?case
  proof (cases "n < 10")
    case True
    then show ?thesis using digit_char_digit [of n] by (simp add: show_nat.simps [of n])
  next
    case False
    with 1 have "set (show_nat (n div 10)) \<subseteq> set ''0123456789''" by simp
    with False show ?thesis using digit_char_digit [of "n mod 10"]
      by (simp add: show_nat.simps [of n])
  qed
qed

lemma safe_name_proper: "s \<noteq> [] \<Longrightarrow> safe_name s \<Longrightarrow> proper s"
proof -
  assume ne: "s \<noteq> []" and sn: "safe_name s"
  have "s \<noteq> ''.''" "s \<noteq> ''..''" using sn by (auto simp: safe_name_def)
  with ne sn show ?thesis by (simp add: proper_def safe_name_def)
qed

lemma show_nat_safe: "show_nat n \<noteq> [] \<and> safe_name (show_nat n)"
proof -
  have "CHR ''/'' \<notin> set ''0123456789''" "CHR ''.'' \<notin> set ''0123456789''" by simp_all
  with show_nat_digits [of n] show ?thesis unfolding safe_name_def by blast
qed

lemma padStart2_safe: "s \<noteq> [] \<and> safe_name s \<Longrightarrow> padStart2 s \<noteq> [] \<and> safe_name (padStart2 s)"
  by (simp add: padStart2_def safe_name_def)

lemma show_int_safe: "show_int i \<noteq> [] \<and> safe_name (show_int i)"
  using show_nat_safe [of "nat i"] show_nat_safe [of "nat (- i)"]
  by (simp add: show_int_def safe_name_def)

lemma date_segments_proper: "\<forall>s\<in>set (date_segments d). proper s"
  using show_int_safe [of "date_year d"]
    padStart2_safe [OF show_nat_safe [of "date_month d + 1"]]
    padStart2_safe [OF show_nat_safe [of "date_day d"]]
  by (simp add: date_segments_def safe_name_proper)

lemma buildDatePath_eq: "buildDatePath d = join_sep (date_segments d)"
proof -
  have "posix_join (map join_sep [[show_int (date_year d)], [padStart2 (show_nat (date_month d + 1))],
            [padStart2 (show_nat (date_day d))]])
        = join_sep (concat [[show_int (date_year d)], [padStart2 (show_nat (date_month d + 1))],
            [padStart2 (show_nat (date_day d))]])"
    using date_segments_proper [of d]
    by (intro posix_join_all_proper) (simp_all add: date_segments_def)
  then show ?thesis by (simp add: buildDatePath_def date_segments_def Let_def)
qed

lemma fg_eq:
  "fg e w (cfg_originalsDir (config e)) (\<lambda>n. n = name)
     = map (\<lambda>k. join_sep (drop (length (originals_root e)) k)) (stored_originals e w name)"
  by (simp add: fg_def stored_originals_def originals_root_def under_root_def Let_def)

lemma findExistingOriginal_eq:
  "findExistingOriginal e w sha ext =
     (case stored_originals e w (sha @ ''.'' @ ext) of
        [] \<Rightarrow> None
      | k # _ \<Rightarrow> Some (posix_join [cfg_originalsDir (config e),
                                     join_sep (drop (length (originals_root e)) k)]))"
  by (simp add: findExistingOriginal_def fg_eq split: list.splits)

lemma stored_originals_member:
  assumes "stored_originals e w name = k # ks" "wf_files w"
  shows "k = originals_root e @ drop (length (originals_root e)) k"
    and "drop (length (originals_root e)) k \<noteq> []"
    and "\<forall>s\<in>set (drop (length (originals_root e)) k). proper s"
    and "last (drop (length (originals_root e)) k) = name"
proof -
  have "k \<in> set (stored_originals e w name)" using assms(1) by simp
  then have kin: "k \<in> set (map fst (files w))" and ur: "under_root (originals_root e) k"
    and lk: "last k = name" by (auto simp: stored_originals_def)
  from ur show a: "k = originals_root e @ drop (length (originals_root e)) k"
    by (metis append_take_drop_id under_root_def)
  from ur show b: "drop (length (originals_root e)) k \<noteq> []" by (simp add: under_root_def)
  from kin assms(2) have "\<forall>s\<in>set k. proper s" by (auto simp: wf_files_def)
  then show "\<forall>s\<in>set (drop (length (originals_root e)) k). proper s"
    by (auto dest: in_set_dropD)
  from b lk show "last (drop (length (originals_root e)) k) = name" by simp
qed

text \<open>The paths and keys derived from an existing original.\<close>

lemma existing_paths:
  fixes e :: env
  assumes rel: "\<forall>s\<in>set rel. proper s" "rel \<noteq> []" "last rel = sha @ ''.'' @ ext"
      and nm: "sha \<noteq> []" "safe_name sha" "safe_name ext"
  defines "existing \<equiv> posix_join [cfg_originalsDir (config e), join_sep rel]"
  shows "fs_key e existing = originals_root e @ rel"
    and "posix_relative (cwd e) (cfg_originalsDir (config e)) existing = join_sep rel"
    and "buildStorageKey e existing (cfg_originalsDir (config e)) ''o'' = join_sep (''o'' # rel)"
    and "fs_key e (deriveThumbPathFromOriginal e existing (cfg_thumbsDir (config e)))
           = thumbs_root e @ butlast rel @ [sha @ ''.jpg'']"
    and "buildStorageKey e (deriveThumbPathFromOriginal e existing (cfg_thumbsDir (config e)))
           (cfg_thumbsDir (config e)) ''t'' = join_sep (''t'' # butlast rel @ [sha @ ''.jpg''])"
    and "join_sep (split_sep (posix_dirname (posix_relative (cwd e) (cfg_originalsDir (config e)) existing)))
           = dir_string (butlast rel)"
proof -
  show k: "fs_key e existing = originals_root e @ rel"
    unfolding existing_def fs_key_def originals_root_def using rel(1,2) by (rule resolve_join2)
  show r: "posix_relative (cwd e) (cfg_originalsDir (config e)) existing = join_sep rel"
    using k rel(2) by (intro posix_relative_under) (simp_all add: fs_key_def originals_root_def)
  have po: "proper ''o''" "proper ''t''" by (simp_all add: proper_def)
  have "posix_join (map join_sep [[''o''], rel]) = join_sep (concat [[''o''], rel])"
    using rel po by (intro posix_join_all_proper) simp_all
  then show "buildStorageKey e existing (cfg_originalsDir (config e)) ''o'' = join_sep (''o'' # rel)"
    by (simp add: buildStorageKey_def r join_split Let_def)
  have pj: "proper (sha @ ''.jpg'')"
    using proper_name [OF nm(1,2), of "''jpg''"] by (simp add: safe_name_def)
  have pb: "\<forall>s\<in>set (butlast rel). proper s" using rel(1) by (auto dest: in_set_butlastD)
  have dn: "posix_dirname (join_sep rel) = dir_string (butlast rel)"
    using posix_dirname_join [OF rel(1,2)] by (simp add: dir_string_def)
  have bn: "posix_basename (join_sep rel) (posix_extname (join_sep rel)) = sha"
    using rel nm by (rule posix_basename_join)
  have dt: "deriveThumbPathFromOriginal e existing (cfg_thumbsDir (config e))
      = posix_join [cfg_thumbsDir (config e), dir_string (butlast rel), sha @ ''.jpg'']"
    by (simp add: deriveThumbPathFromOriginal_def r dn bn Let_def)
  have nad: "\<not> isAbsolute (dir_string (butlast rel))"
    using proper_not_abs [OF pb] by (simp add: dir_string_def isAbsolute_def)
  have naj: "\<not> isAbsolute (sha @ ''.jpg'')"
    using proper_not_abs [of "[sha @ ''.jpg'']"] pj by simp
  have sd: "foldl (normalize_step False) acc (split_sep (dir_string (butlast rel))) = acc @ butlast rel" for acc
  proof (cases "butlast rel = []")
    case True
    then show ?thesis by (simp add: dir_string_def)
  next
    case False
    then show ?thesis using pb by (simp add: dir_string_def proper_split_join foldl_step_proper)
  qed
  have sj: "split_sep (sha @ ''.jpg'') = [sha @ ''.jpg'']"
    using pj by (intro split_sep_noslash) (simp add: proper_def)
  have "\<forall>a\<in>set [dir_string (butlast rel), sha @ ''.jpg'']. \<not> isAbsolute a" using nad naj by simp
  from resolve_join [OF this, of "cwd e" "cfg_thumbsDir (config e)"]
  show tk: "fs_key e (deriveThumbPathFromOriginal e existing (cfg_thumbsDir (config e)))
           = thumbs_root e @ butlast rel @ [sha @ ''.jpg'']"
    using pj by (simp add: dt fs_key_def thumbs_root_def sd sj normalize_step_def proper_def)
  have tr: "posix_relative (cwd e) (cfg_thumbsDir (config e))
               (deriveThumbPathFromOriginal e existing (cfg_thumbsDir (config e)))
             = join_sep (butlast rel @ [sha @ ''.jpg''])"
    using tk by (intro posix_relative_under) (simp_all add: fs_key_def thumbs_root_def)
  have "posix_join (map join_sep [[''t''], butlast rel @ [sha @ ''.jpg'']])
          = join_sep (concat [[''t''], butlast rel @ [sha @ ''.jpg'']])"
    using pb pj po by (intro posix_join_all_proper) auto
  then show "buildStorageKey e (deriveThumbPathFromOriginal e existing (cfg_thumbsDir (config e)))
           (cfg_thumbsDir (config e)) ''t'' = join_sep (''t'' # butlast rel @ [sha @ ''.jpg''])"
    by (simp add: buildStorageKey_def tr join_split Let_def)
  show "join_sep (split_sep (posix_dirname (posix_relative (cwd e) (cfg_originalsDir (config e)) existing)))
           = dir_string (butlast rel)"
    by (simp add: r dn join_split)
qed

lemma resolve_existing:
  assumes st: "stored_originals e w (sha @ ''.'' @ ext) = k # ks" and wf: "wf_files w"
      and nm: "sha \<noteq> []" "safe_name sha" "safe_name ext"
  defines "rel \<equiv> drop (length (originals_root e)) k"
  defines "r \<equiv> fst (resolvePathsForSha e w sha ext)"
  shows "isNew r = False"
    and "originalPath r = posix_join [cfg_originalsDir (config e), join_sep rel]"
    and "fs_key e (originalPath r) = k"
    and "originalKey r = join_sep (''o'' # rel)"
    and "thumbKey r = join_sep (''t'' # butlast rel @ [sha @ ''.jpg''])"
    and "fs_key e (thumbPath r) = thumbs_root e @ butlast rel @ [sha @ ''.jpg'']"
    and "relativeDir r = dir_string (butlast rel)"
    and "files (snd (resolvePathsForSha e w sha ext)) = files w"
    and "events (snd (resolvePathsForSha e w sha ext)) = events w"
proof -
  note m = stored_originals_member [OF st wf, folded rel_def]
  note ep = existing_paths [OF m(3) m(2) m(4) nm, of e]
  have fe: "findExistingOriginal e w sha ext = Some (posix_join [cfg_originalsDir (config e), join_sep rel])"
    using st by (simp add: findExistingOriginal_eq rel_def)
  have res: "resolvePathsForSha e w sha ext =
     (let existing = posix_join [cfg_originalsDir (config e), join_sep rel];
          originals = cfg_originalsDir (config e); thumbs = cfg_thumbsDir (config e);
          oKey = buildStorageKey e existing originals ''o'';
          tPath = deriveThumbPathFromOriginal e existing thumbs;
          tKey = buildStorageKey e tPath thumbs ''t''
      in (\<lparr>originalPath = existing, thumbPath = tPath, originalKey = oKey, thumbKey = tKey,
           isNew = False,
           relativeDir =
             join_sep (split_sep (posix_dirname (posix_relative (cwd e) originals existing)))\<rparr>,
          logger ''media.path.reused'' [sha, oKey, tKey] w))"
    by (simp add: resolvePathsForSha_def fe Let_def)
  show "isNew r = False" "originalPath r = posix_join [cfg_originalsDir (config e), join_sep rel]"
    "files (snd (resolvePathsForSha e w sha ext)) = files w"
    "events (snd (resolvePathsForSha e w sha ext)) = events w"
    by (simp_all add: r_def res Let_def)
  show "fs_key e (originalPath r) = k" using ep(1) m(1) by (simp add: r_def res Let_def)
  show "originalKey r = join_sep (''o'' # rel)" using ep(3) by (simp add: r_def res Let_def)
  show "thumbKey r = join_sep (''t'' # butlast rel @ [sha @ ''.jpg''])"
    using ep(5) by (simp add: r_def res Let_def)
  show "fs_key e (thumbPath r) = thumbs_root e @ butlast rel @ [sha @ ''.jpg'']"
    using ep(4) by (simp add: r_def res Let_def)
  show "relativeDir r = dir_string (butlast rel)" using ep(6) by (simp add: r_def res Let_def)
qed

lemma show_nat_small: "n < 10 \<Longrightarrow> show_nat n = [digit_char n]"
  by (subst show_nat.simps) simp

lemma show_nat_step: "10 \<le> n \<Longrightarrow> show_nat n = show_nat (n div 10) @ [digit_char (n mod 10)]"
  by (subst show_nat.simps) simp

lemma digit_char_mod: "digit_char (n mod 10) = digit_char n"
  by (simp add: digit_char_def)

lemma dec_1: "dec 1 n = [digit_char n]"
  by (simp add: digit_char_mod)

lemma dec_2: "dec 2 n = [digit_char (n div 10), digit_char n]"
proof -
  have "dec 2 n = dec (Suc (Suc 0)) n" by (simp only: numeral_2_eq_2)
  then show ?thesis by (simp add: digit_char_mod)
qed

lemma dec_4: "dec 4 n = [digit_char (n div 10 div 10 div 10), digit_char (n div 10 div 10), digit_char (n div 10), digit_char n]"
proof -
  have "(4::nat) = Suc (Suc (Suc (Suc 0)))" by simp
  then have "dec 4 n = dec (Suc (Suc (Suc (Suc 0)))) n" by (simp only:)
  then show ?thesis by (simp add: digit_char_mod)
qed

lemma show_nat_dec2: "10 \<le> n \<Longrightarrow> n < 100 \<Longrightarrow> show_nat n = dec 2 n"
proof -
  assume a: "10 \<le> n" "n < 100"
  then have "n div 10 < 10" by simp
  then have "show_nat (n div 10) = [digit_char (n div 10)]" by (rule show_nat_small)
  with show_nat_step [OF a(1)] show ?thesis by (simp add: dec_2 digit_char_mod)
qed

lemma digit_char_0: "digit_char 0 = CHR ''0''"
  by (simp add: digit_char_def)

lemma padStart2_dec2: "n < 100 \<Longrightarrow> padStart2 (show_nat n) = dec 2 n"
proof (cases "n < 10")
  case True
  then have "n div 10 = 0" by simp
  moreover have "show_nat n = [digit_char n]" using True by (rule show_nat_small)
  ultimately show ?thesis by (simp add: padStart2_def dec_2 digit_char_0)
next
  case False
  assume "n < 100"
  with False have "show_nat n = dec 2 n" by (simp add: show_nat_dec2)
  then show ?thesis by (simp add: padStart2_def dec_2)
qed

lemma show_nat_dec4: "1000 \<le> n \<Longrightarrow> n < 10000 \<Longrightarrow> show_nat n = dec 4 n"
proof -
  assume a: "1000 \<le> n" "n < 10000"
  have b1: "10 \<le> n" using a by simp
  have b2: "10 \<le> n div 10" using a by simp
  have b3: "10 \<le> n div 10 div 10" using a by simp
  have b4: "n div 10 div 10 div 10 < 10" using a by simp
  have "show_nat n = show_nat (n div 10) @ [digit_char (n mod 10)]" using b1 by (rule show_nat_step)
  also have "show_nat (n div 10) = show_nat (n div 10 div 10) @ [digit_char (n div 10 mod 10)]"
    using b2 by (rule show_nat_step)
  also have "show_nat (n div 10 div 10) = show_nat (n div 10 div 10 div 10) @ [digit_char (n div 10 div 10 mod 10)]"
    using b3 by (rule show_nat_step)
  also have "show_nat (n div 10 div 10 div 10) = [digit_char (n div 10 div 10 div 10)]"
    using b4 by (rule show_nat_small)
  finally show ?thesis by (simp add: dec_4 digit_char_mod)
qed

lemma show_int_dec4: "1000 \<le> y \<Longrightarrow> y \<le> 9999 \<Longrightarrow> show_int y = dec 4 (nat y)"
  by (simp add: show_int_def show_nat_dec4)

lemma resolve_new:
  fixes e :: env
  assumes st: "stored_originals e w (sha @ ''.'' @ ext) = []"
      and nm: "sha \<noteq> []" "safe_name sha" "safe_name ext"
  defines "ds \<equiv> date_segments (today w)"
  defines "r \<equiv> fst (resolvePathsForSha e w sha ext)"
  shows "isNew r = True"
    and "fs_key e (originalPath r) = originals_root e @ ds @ [sha @ ''.'' @ ext]"
    and "originalKey r = join_sep (''o'' # ds @ [sha @ ''.'' @ ext])"
    and "thumbKey r = join_sep (''t'' # ds @ [sha @ ''.jpg''])"
    and "fs_key e (thumbPath r) = thumbs_root e @ ds @ [sha @ ''.jpg'']"
    and "relativeDir r = join_sep ds"
    and "files (snd (resolvePathsForSha e w sha ext)) = files w"
    and "events (snd (resolvePathsForSha e w sha ext))
           = events w @ [Mkdir (posix_join [cfg_originalsDir (config e), join_sep ds]),
                         Mkdir (posix_join [cfg_thumbsDir (config e), join_sep ds])]"
proof -
  have fe: "findExistingOriginal e w sha ext = None"
    using st by (simp add: findExistingOriginal_eq)
  have pds: "\<forall>s\<in>set ds. proper s" "ds \<noteq> []"
    using date_segments_proper [of "today w"] by (simp_all add: ds_def date_segments_def)
  have pn: "proper (sha @ ''.'' @ ext)" using nm by (rule proper_name)
  have pj: "proper (sha @ ''.jpg'')"
    using proper_name [OF nm(1,2), of "''jpg''"] by (simp add: safe_name_def)
  have po: "proper ''o''" "proper ''t''" by (simp_all add: proper_def)
  have res: "resolvePathsForSha e w sha ext =
      (\<lparr>originalPath = posix_join [posix_join [cfg_originalsDir (config e), join_sep ds], sha @ ''.'' @ ext],
        thumbPath = posix_join [posix_join [cfg_thumbsDir (config e), join_sep ds], sha @ ''.jpg''],
        originalKey = posix_join [''o'', join_sep ds, sha @ ''.'' @ ext],
        thumbKey = posix_join [''t'', join_sep ds, sha @ ''.jpg''],
        isNew = True, relativeDir = join_sep ds\<rparr>,
       logger ''media.path.created''
         [sha, posix_join [''o'', join_sep ds, sha @ ''.'' @ ext], posix_join [''t'', join_sep ds, sha @ ''.jpg'']]
         (fs_mkdir (posix_join [cfg_thumbsDir (config e), join_sep ds])
            (fs_mkdir (posix_join [cfg_originalsDir (config e), join_sep ds]) w)))"
    using fe by (simp add: resolvePathsForSha_def Let_def buildDatePath_eq ds_def)
  show "isNew r = True" "relativeDir r = join_sep ds"
    "files (snd (resolvePathsForSha e w sha ext)) = files w"
    "events (snd (resolvePathsForSha e w sha ext))
           = events w @ [Mkdir (posix_join [cfg_originalsDir (config e), join_sep ds]),
                         Mkdir (posix_join [cfg_thumbsDir (config e), join_sep ds])]"
    by (simp_all add: r_def res fs_mkdir_def)
  have k1: "resolve_segs wd (posix_join [posix_join [d, join_sep ds], n]) = resolve_segs wd d @ ds @ [n]"
    if "proper n" for wd d n
  proof -
    have "resolve_segs wd (posix_join [posix_join [d, join_sep ds], join_sep [n]])
        = resolve_segs wd (posix_join [d, join_sep ds]) @ [n]"
      using that by (intro resolve_join2) simp_all
    then show ?thesis using resolve_join2 [OF pds, of wd d] by simp
  qed
  show "fs_key e (originalPath r) = originals_root e @ ds @ [sha @ ''.'' @ ext]"
    using k1 [OF pn] by (simp add: r_def res fs_key_def originals_root_def)
  show "fs_key e (thumbPath r) = thumbs_root e @ ds @ [sha @ ''.jpg'']"
    using k1 [OF pj] by (simp add: r_def res fs_key_def thumbs_root_def)
  have k2: "posix_join [p, join_sep ds, n] = join_sep (p # ds @ [n])" if "proper n" "proper p" for p n
  proof -
    have "posix_join (map join_sep [[p], ds, [n]]) = join_sep (concat [[p], ds, [n]])"
      using that pds by (intro posix_join_all_proper) auto
    then show ?thesis by simp
  qed
  show "originalKey r = join_sep (''o'' # ds @ [sha @ ''.'' @ ext])"
    using k2 [OF pn po(1)] by (simp add: r_def res)
  show "thumbKey r = join_sep (''t'' # ds @ [sha @ ''.jpg''])"
    using k2 [OF pj po(2)] by (simp add: r_def res)
qed

lemma isNew_iff:
  "isNew (fst (resolvePathsForSha e w sha ext)) \<longleftrightarrow> stored_originals e w (sha @ ''.'' @ ext) = []"
  by (cases "stored_originals e w (sha @ ''.'' @ ext)")
     (simp_all add: resolvePathsForSha_def findExistingOriginal_eq Let_def)

text \<open>
  Claim C7. For a newly allocated original and thumbnail the storage keys are
  \<open>o/{yyyy}/{mm}/{dd}/{digest}.{ext}\<close> and \<open>t/{yyyy}/{mm}/{dd}/{digest}.jpg\<close>: the
  prefix, the year in four digits, the month (counted from 1) and the day in two digits,
  the digest and the extension, joined by \<open>/\<close>; the thumbnail key ends in \<open>.jpg\<close>
  whatever the extension of the original is. (The date is a calendar date with a
  four-digit year; digest and extension contain neither \<open>/\<close> nor \<open>.\<close>.)
\<close>

theorem new_media_storage_keys:
  assumes "isNew (fst (resolvePathsForSha e w sha ext))"
      and "sha \<noteq> []" "safe_name sha" "safe_name ext"
      and "1000 \<le> date_year (today w)" "date_year (today w) \<le> 9999"
      and "date_month (today w) < 12" "date_day (today w) \<le> 31"
  shows "originalKey (fst (resolvePathsForSha e w sha ext))
           = ''o/'' @ dec 4 (nat (date_year (today w))) @ ''/'' @ dec 2 (date_month (today w) + 1)
               @ ''/'' @ dec 2 (date_day (today w)) @ ''/'' @ sha @ ''.'' @ ext
       \<and> thumbKey (fst (resolvePathsForSha e w sha ext))
           = ''t/'' @ dec 4 (nat (date_year (today w))) @ ''/'' @ dec 2 (date_month (today w) + 1)
               @ ''/'' @ dec 2 (date_day (today w)) @ ''/'' @ sha @ ''.jpg''"
proof -
  have st: "stored_originals e w (sha @ ''.'' @ ext) = []" using assms(1) by (simp add: isNew_iff)
  have ds: "date_segments (today w) = [dec 4 (nat (date_year (today w))),
       dec 2 (date_month (today w) + 1), dec 2 (date_day (today w))]"
    using assms(5-8) by (simp add: date_segments_def show_int_dec4 padStart2_dec2)
  from resolve_new(3,4) [OF st assms(2-4)] show ?thesis by (simp add: ds)
qed

theorem new_media_storage_keys_witness:
  "isNew (fst (resolvePathsForSha ex_env ex_world
       ''ffd8ffe000100000000000000000000000000000000000000000000000000000'' ''png''))
   \<and> originalKey (fst (resolvePathsForSha ex_env ex_world
       ''ffd8ffe000100000000000000000000000000000000000000000000000000000'' ''png''))
     = ''o/2026/11/03/ffd8ffe000100000000000000000000000000000000000000000000000000000.png''
   \<and> thumbKey (fst (resolvePathsForSha ex_env ex_world
       ''ffd8ffe000100000000000000000000000000000000000000000000000000000'' ''png''))
     = ''t/2026/11/03/ffd8ffe000100000000000000000000000000000000000000000000000000000.jpg''"
proof -
  have h1: "isNew (fst (resolvePathsForSha ex_env ex_world
       ''ffd8ffe000100000000000000000000000000000000000000000000000000000'' ''png''))"
    by code_simp
  have h2: "''ffd8ffe000100000000000000000000000000000000000000000000000000000'' \<noteq> []" by simp
  have h3: "safe_name ''ffd8ffe000100000000000000000000000000000000000000000000000000000''"
    by code_simp
  have h4: "safe_name ''png''" by code_simp
  have h5: "1000 \<le> date_year (today ex_world)" "date_year (today ex_world) \<le> 9999"
    "date_month (today ex_world) < 12" "date_day (today ex_world) \<le> 31"
    by (simp_all add: ex_world_def)
  have d: "dec 4 (nat (date_year (today ex_world))) = ''2026''"
    "dec 2 (date_month (today ex_world) + 1) = ''11''" "dec 2 (date_day (today ex_world)) = ''03''"
    by code_simp+
  from new_media_storage_keys [OF h1 h2 h3 h4 h5] h1 show ?thesis unfolding d by simp
qed

end
